theory Spec2Isabelle
  imports Complex_Main "HOL-Library.AList"
begin

section \<open>Task manager: process-group aggregation and durable suspend/resume\<close>

text \<open>
  A shallow embedding of \<^verbatim>\<open>src/os_project/task_manager.py\<close> (class
  \<^verbatim>\<open>TaskManagerApp\<close>). A finite Python float is idealised as a real number and
  the arithmetic on finite floats as exact; the floats that are not finite are kept
  apart where the program reads them from the state file. Process identifiers listed
  by the operating system are natural numbers; every \<^verbatim>\<open>try/except\<close> of the source
  is a branch of the model.
\<close>

subsection \<open>Strings\<close>

text \<open>
  A Python string is modelled by the list of the bytes of its UTF-8 encoding. The
  characters of \<^verbatim>\<open>.exe\<close>, the underscore and the decimal digits are single
  bytes, and no byte of the encoding of another character equals one of them: a string
  ends in \<^verbatim>\<open>.exe\<close> exactly when its bytes do, and two strings are equal exactly
  when their bytes are.

  \<^verbatim>\<open>str.lower\<close> and \<^verbatim>\<open>str.strip\<close> follow the Unicode tables. They are
  taken as they are: two functions on strings about which nothing is assumed.
\<close>

record pystr =
  str_lower :: "string \<Rightarrow> string"
  str_strip :: "string \<Rightarrow> string"

text \<open>\<^verbatim>\<open>str.endswith\<close>.\<close>

definition endswith :: "string \<Rightarrow> string \<Rightarrow> bool" where
  "endswith s suf = (length suf \<le> length s \<and> drop (length s - length suf) s = suf)"

text \<open>\<^verbatim>\<open>str(pid)\<close> for a non-negative integer: its decimal digits.\<close>

definition digit_char :: "nat \<Rightarrow> char" where
  "digit_char d = char_of (48 + d)"

fun str_nat :: "nat \<Rightarrow> string" where
  "str_nat n = (if n < 10 then [digit_char n] else str_nat (n div 10) @ [digit_char (n mod 10)])"

declare str_nat.simps [simp del]

subsection \<open>Network throughput per process\<close>

text \<open>
  \<^verbatim>\<open>self.last_net_io\<close> maps a pid to the byte total and the time of its last
  sample. The argument \<open>io\<close> is the result of \<^verbatim>\<open>proc.io_counters()\<close>:
  \<open>None\<close> when the call raises, otherwise the read and write byte counts.
  The function returns the throughput and the updated map.
\<close>

type_synonym net_io = "nat \<rightharpoonup> (int \<times> real)"

definition get_network_kbps_for_pid ::
  "net_io \<Rightarrow> nat \<Rightarrow> (int \<times> int) option \<Rightarrow> real \<Rightarrow> real \<times> net_io" where
  "get_network_kbps_for_pid last_net_io p io now =
     (case io of
        None \<Rightarrow> (0, last_net_io)
      | Some (read_bytes, write_bytes) \<Rightarrow>
          (let total_bytes = read_bytes + write_bytes;
               kbps = (case last_net_io p of
                         Some (last_bytes, last_time) \<Rightarrow>
                           (let delta = total_bytes - last_bytes;
                                dt = max (now - last_time) 0.001
                            in (real_of_int delta / dt) / 1024)
                       | None \<Rightarrow> 0)
           in (max kbps 0, last_net_io(p \<mapsto> (total_bytes, now)))))"

text \<open>The formula of the specification, section 4.1, with the floor on the elapsed time.\<close>

definition spec_network_kbps :: "int \<Rightarrow> int \<Rightarrow> real \<Rightarrow> real" where
  "spec_network_kbps current_io_bytes previous_io_bytes elapsed_seconds =
     max 0 (real_of_int (current_io_bytes - previous_io_bytes)
              / max elapsed_seconds (1 / 1000) / 1024)"

subsection \<open>Aggregation of process samples\<close>

text \<open>
  One iteration of \<^verbatim>\<open>psutil.process_iter\<close> in \<^verbatim>\<open>update_processes_list\<close>
  reads, for one process: its pid, its name (possibly \<^verbatim>\<open>None\<close>), the resident set
  size of \<^verbatim>\<open>memory_info\<close> (possibly \<^verbatim>\<open>None\<close>), the result of
  \<^verbatim>\<open>proc.cpu_percent\<close> (\<open>None\<close> when the call raises: the process is gone or
  access is denied) and the result of \<^verbatim>\<open>proc.io_counters\<close>.
\<close>

record sample =
  pid :: nat
  name :: "string option"
  memory_info :: "nat option"
  cpu_percent :: "real option"
  io_counters :: "(int \<times> int) option"

record pid_detail =
  pid_cpu :: real
  pid_memory :: real
  pid_power :: real
  pid_network :: real

record group =
  key :: string
  display_name :: string
  pids :: "nat list"
  cpu :: real
  memory :: real
  power_mw :: real
  network :: real
  per_pid :: "nat \<rightharpoonup> pid_detail"

definition CPU_TDP_WATTS :: real where
  "CPU_TDP_WATTS = 15"

definition estimate_power_mw :: "real \<Rightarrow> real" where
  "estimate_power_mw cpu_pct = (cpu_pct / 100) * CPU_TDP_WATTS * 1000"

text \<open>\<^verbatim>\<open>raw_name = (info.get('name') or "unknown").strip()\<close>\<close>

definition raw_name :: "pystr \<Rightarrow> sample \<Rightarrow> string" where
  "raw_name lib s =
     str_strip lib (case name s of None \<Rightarrow> ''unknown'' | Some n \<Rightarrow> if n = [] then ''unknown'' else n)"

definition name_lower :: "pystr \<Rightarrow> sample \<Rightarrow> string" where
  "name_lower lib s = str_lower lib (raw_name lib s)"

text \<open>The key of lines 337 to 342.\<close>

definition group_key :: "pystr \<Rightarrow> sample \<Rightarrow> string" where
  "group_key lib s =
     (if endswith (name_lower lib s) ''.exe'' then name_lower lib s
      else name_lower lib s @ ''_'' @ str_nat (pid s))"

definition new_group :: "string \<Rightarrow> string \<Rightarrow> group" where
  "new_group k d =
     \<lparr>key = k, display_name = d, pids = [], cpu = 0, memory = 0, power_mw = 0, network = 0,
      per_pid = Map.empty\<rparr>"

text \<open>
  The body of the loop. The dictionary \<^verbatim>\<open>processes\<close> keeps its keys in insertion
  order: it is an association list, and an assignment to a key that is present keeps the
  key's place. A sample whose \<^verbatim>\<open>cpu_percent\<close> raises is skipped before anything
  is stored.
\<close>

definition process_sample ::
  "pystr \<Rightarrow> real \<Rightarrow> (string \<times> group) list \<times> net_io \<Rightarrow> sample \<Rightarrow> (string \<times> group) list \<times> net_io" where
  "process_sample lib now st s =
     (let (processes, last_net_io) = st;
          k = group_key lib s;
          display = raw_name lib s
      in case cpu_percent s of
           None \<Rightarrow> st
         | Some c \<Rightarrow>
             (let mem_mb = (case memory_info s of
                              None \<Rightarrow> 0
                            | Some rss \<Rightarrow> real rss / (1024 * 1024));
                  (net_kbps, last_net_io') =
                     get_network_kbps_for_pid last_net_io (pid s) (io_counters s) now;
                  pw = estimate_power_mw c;
                  agg = (case map_of processes k of
                           None \<Rightarrow> new_group k display
                         | Some g \<Rightarrow> g);
                  agg' = agg\<lparr>pids := pids agg @ [pid s],
                             cpu := cpu agg + c,
                             memory := memory agg + mem_mb,
                             power_mw := power_mw agg + pw,
                             network := network agg + net_kbps,
                             per_pid := (per_pid agg)(pid s \<mapsto>
                               \<lparr>pid_cpu = c, pid_memory = mem_mb, pid_power = pw,
                                pid_network = net_kbps\<rparr>)\<rparr>
              in (AList.update k agg' processes, last_net_io')))"

text \<open>
  \<^verbatim>\<open>update_processes_list\<close>: the groups, sorted by decreasing cpu sum with a stable
  sort, and the updated \<^verbatim>\<open>last_net_io\<close>.
\<close>

definition update_processes_list ::
  "pystr \<Rightarrow> real \<Rightarrow> net_io \<Rightarrow> sample list \<Rightarrow> group list \<times> net_io" where
  "update_processes_list lib now last_net_io samples =
     (let (processes, last_net_io') = foldl (process_sample lib now) ([], last_net_io) samples;
          aggregated_list = sort_key (\<lambda>x. - cpu x) (map snd processes)
      in (aggregated_list, last_net_io'))"

subsection \<open>Display and notifications\<close>

text \<open>
  A row of the tree: the group's name, the number of its pids, its sums, its tag
  (\<^verbatim>\<open>"high_memory"\<close> or the empty string) and one child per pid, read with
  \<^verbatim>\<open>p["per_pid"].get(pid, {})\<close> and the default 0.0 of each field.
\<close>

record tree_row =
  row_text :: string
  row_pid_count :: nat
  row_cpu :: real
  row_memory :: real
  row_power :: real
  row_network :: real
  row_tag :: string
  row_children :: "(nat \<times> pid_detail) list"

definition detail_of :: "group \<Rightarrow> nat \<Rightarrow> pid_detail" where
  "detail_of p i =
     (case per_pid p i of
        None \<Rightarrow> \<lparr>pid_cpu = 0, pid_memory = 0, pid_power = 0, pid_network = 0\<rparr>
      | Some d \<Rightarrow> d)"

text \<open>
  The state of one call of \<^verbatim>\<open>display_processes\<close>: the set
  \<^verbatim>\<open>self.alerted_names\<close>, the local set \<^verbatim>\<open>current_high_names\<close>, the toasts
  requested so far (name, memory sum, limit) and the rows inserted so far.
\<close>

record display_state =
  alerted_names :: "string set"
  current_high_names :: "string set"
  toasts :: "(string \<times> real \<times> real) list"
  tree :: "tree_row list"

text \<open>
  The memory limit: the text of the entry converted by \<^verbatim>\<open>float\<close> (\<open>None\<close>
  when the conversion raises), a negative value replaced by 0.
\<close>

definition memory_limit_of :: "real option \<Rightarrow> real" where
  "memory_limit_of entry = (case entry of None \<Rightarrow> 0 | Some l \<Rightarrow> if l < 0 then 0 else l)"

definition display_group :: "real \<Rightarrow> display_state \<Rightarrow> group \<Rightarrow> display_state" where
  "display_group memory_limit st p =
     (let nm = display_name p;
          pid_list = pids p;
          mem_sum = memory p;
          high = (memory_limit > 0 \<and> mem_sum > memory_limit);
          tag = (if high then ''high_memory'' else '''');
          st1 = (if high
                 then (let st0 = st\<lparr>current_high_names := insert nm (current_high_names st)\<rparr>
                       in if nm \<notin> alerted_names st0
                          then st0\<lparr>alerted_names := insert nm (alerted_names st0),
                                   toasts := toasts st0 @ [(nm, mem_sum, memory_limit)]\<rparr>
                          else st0)
                 else st);
          row = \<lparr>row_text = nm, row_pid_count = length pid_list, row_cpu = cpu p,
                 row_memory = mem_sum, row_power = power_mw p, row_network = network p,
                 row_tag = tag,
                 row_children = map (\<lambda>i. (i, detail_of p i)) pid_list\<rparr>
      in st1\<lparr>tree := tree st1 @ [row]\<rparr>)"

text \<open>
  \<^verbatim>\<open>display_processes\<close>: the tree is emptied, every group is displayed, then the
  names that are no longer high leave \<^verbatim>\<open>alerted_names\<close>.
\<close>

definition display_processes :: "real option \<Rightarrow> string set \<Rightarrow> group list \<Rightarrow> display_state" where
  "display_processes entry alerted processes =
     (let memory_limit = memory_limit_of entry;
          st = foldl (display_group memory_limit)
                 \<lparr>alerted_names = alerted, current_high_names = {}, toasts = [], tree = []\<rparr>
                 processes
      in st\<lparr>alerted_names := {n \<in> alerted_names st. n \<in> current_high_names st}\<rparr>)"

text \<open>The rule of the specification, section 4.2.\<close>

definition spec_high :: "real \<Rightarrow> real \<Rightarrow> bool" where
  "spec_high limit_mb memory_sum_mb = (limit_mb > 0 \<and> memory_sum_mb > limit_mb)"

subsection \<open>Persisted suspension state\<close>

text \<open>
  A Python float: a finite one, idealised as a real number, or one of
  \<^verbatim>\<open>inf\<close>, \<^verbatim>\<open>-inf\<close> and \<^verbatim>\<open>nan\<close>.
\<close>

datatype pyfloat = Fin real | PInf | NInf | NaN

text \<open>
  A value read by \<^verbatim>\<open>json.load\<close>: an integer literal gives an \<^verbatim>\<open>int\<close>, any
  other number a \<^verbatim>\<open>float\<close>, where \<^verbatim>\<open>NaN\<close>, \<^verbatim>\<open>Infinity\<close>,
  \<^verbatim>\<open>-Infinity\<close> and literals beyond the range of a float give the three floats
  that are not finite. A dictionary is the list of its items; its keys are distinct.
\<close>

datatype json =
    JNull
  | JBool bool
  | JInt int
  | JFloat pyfloat
  | JStr string
  | JList "json list"
  | JDict "(string \<times> json) list"

text \<open>
  The file \<^verbatim>\<open>suspended_state.json\<close>: absent, present but not loadable
  (\<^verbatim>\<open>open\<close> or \<^verbatim>\<open>json.load\<close> raises), or holding a value.
\<close>

datatype disk_file = Missing | Unreadable | Content json

text \<open>
  What happens when \<^verbatim>\<open>save_suspend_state\<close> writes: the write succeeds,
  \<^verbatim>\<open>open\<close> raises (the file is unchanged), or \<^verbatim>\<open>json.dump\<close> raises after
  \<^verbatim>\<open>open\<close> has truncated the file.
\<close>

datatype write_outcome = Written | Open_failed | Dump_failed

text \<open>The message boxes of the suspend and resume code, with the numbers they show.\<close>

datatype dialog =
    Warn_select
  | Warn_no_pids
  | Error_custom_minutes
  | Confirm_suspend nat real
  | Info_stopped nat
  | Info_resumed_auto nat
  | Info_resumed_elapsed nat
  | Ask_resume nat
  | Info_resumed nat
  | Info_resumed_persisted nat

text \<open>
  What the program does to the outside, in order: a message box, a write of the state
  file with its outcome, a call of \<^verbatim>\<open>psutil.Process(pid).suspend()\<close> or
  \<^verbatim>\<open>.resume()\<close> with its success, a \<^verbatim>\<open>time.sleep\<close> that returns or one
  that raises, a removal of the state file with its success.
\<close>

datatype event =
    Dialog dialog
  | Save_state json write_outcome
  | Os_suspend int bool
  | Os_resume int bool
  | Sleep real
  | Sleep_failed pyfloat
  | Remove_state bool

text \<open>
  The answers of the environment: the conversions of a string by \<^verbatim>\<open>int\<close> and
  \<^verbatim>\<open>float\<close> (\<open>None\<close> when they raise), the readings of \<^verbatim>\<open>time.time()\<close> at
  lines 228, 141, 253, 651 and 688, the outcome of the write and of \<^verbatim>\<open>os.remove\<close>,
  whether a suspend or a resume of a pid succeeds, whether \<^verbatim>\<open>time.sleep\<close> accepts
  a finite positive duration (it raises \<^verbatim>\<open>OverflowError\<close> on one that is too
  large for the platform), and the operator's answer to the prompt of the recovery
  (\<open>None\<close> when the message box raises). The other message boxes are taken not to
  raise.
\<close>

record env =
  int_of_str :: "string \<Rightarrow> int option"
  float_of_str :: "string \<Rightarrow> pyfloat option"
  now_start :: real
  now_saved :: real
  now_suspended :: real
  now_check :: real
  now_delayed :: real
  write_result :: write_outcome
  remove_ok :: bool
  can_suspend :: "int \<Rightarrow> bool"
  can_resume :: "int \<Rightarrow> bool"
  sleep_ok :: "real \<Rightarrow> bool"
  askyesno_resume :: "bool option"

text \<open>
  The state: the file, the field \<^verbatim>\<open>self.active_suspended\<close>, the processes that
  are suspended, and the events so far.
\<close>

record sys =
  disk :: disk_file
  active_suspended :: "json option"
  suspended :: "int set"
  trace :: "event list"

definition emit :: "event \<Rightarrow> sys \<Rightarrow> sys" where
  "emit e s = s\<lparr>trace := trace s @ [e]\<rparr>"

text \<open>\<^verbatim>\<open>int(x)\<close> of a finite float truncates towards zero.\<close>

definition py_trunc :: "real \<Rightarrow> int" where
  "py_trunc x = (if 0 \<le> x then \<lfloor>x\<rfloor> else \<lceil>x\<rceil>)"

text \<open>
  \<^verbatim>\<open>int(x)\<close> of a float: \<^verbatim>\<open>ValueError\<close> on \<^verbatim>\<open>nan\<close> and
  \<^verbatim>\<open>OverflowError\<close> on an infinity.
\<close>

fun int_of_float :: "pyfloat \<Rightarrow> int option" where
  "int_of_float (Fin r) = Some (py_trunc r)"
| "int_of_float PInf = None"
| "int_of_float NInf = None"
| "int_of_float NaN = None"

text \<open>
  \<^verbatim>\<open>float(i)\<close> of an integer rounds to the nearest float and raises
  \<^verbatim>\<open>OverflowError\<close> when that is beyond the largest one: from
  \<open>2^1024 - 2^970\<close> on, in absolute value. Below that bound the result is finite,
  and, like every finite float here, it is taken without its rounding.
\<close>

definition FLOAT_INT_LIMIT :: int where
  "FLOAT_INT_LIMIT = 2 ^ 1024 - 2 ^ 970"

definition float_of_int :: "int \<Rightarrow> pyfloat option" where
  "float_of_int i = (if \<bar>i\<bar> < FLOAT_INT_LIMIT then Some (Fin (of_int i)) else None)"

text \<open>\<^verbatim>\<open>x - t\<close> for a float \<open>x\<close> and a clock reading \<open>t\<close>.\<close>

fun float_minus :: "pyfloat \<Rightarrow> real \<Rightarrow> pyfloat" where
  "float_minus (Fin r) t = Fin (r - t)"
| "float_minus PInf t = PInf"
| "float_minus NInf t = NInf"
| "float_minus NaN t = NaN"

text \<open>\<^verbatim>\<open>int(v)\<close> and \<^verbatim>\<open>float(v)\<close> of a loaded value; \<open>None\<close> when they raise.\<close>

fun py_int :: "env \<Rightarrow> json \<Rightarrow> int option" where
  "py_int en (JInt i) = Some i"
| "py_int en (JFloat x) = int_of_float x"
| "py_int en (JBool b) = Some (if b then 1 else 0)"
| "py_int en (JStr t) = int_of_str en t"
| "py_int en JNull = None"
| "py_int en (JList xs) = None"
| "py_int en (JDict kv) = None"

fun py_float :: "env \<Rightarrow> json \<Rightarrow> pyfloat option" where
  "py_float en (JInt i) = float_of_int i"
| "py_float en (JFloat x) = Some x"
| "py_float en (JBool b) = Some (Fin (if b then 1 else 0))"
| "py_float en (JStr t) = float_of_str en t"
| "py_float en JNull = None"
| "py_float en (JList xs) = None"
| "py_float en (JDict kv) = None"

text \<open>
  The dictionary that \<^verbatim>\<open>save_suspend_state\<close> builds: the pids are
  \<^verbatim>\<open>int\<close>s, the two times are finite floats.
\<close>

definition suspension_record :: "int list \<Rightarrow> real \<Rightarrow> real \<Rightarrow> json" where
  "suspension_record pid_list resume_time saved_at =
     JDict [(''pids'', JList (map JInt pid_list)),
            (''resume_time'', JFloat (Fin resume_time)),
            (''saved_at'', JFloat (Fin saved_at))]"

text \<open>
  \<^verbatim>\<open>save_suspend_state\<close>: every exception is swallowed, and the in-memory copy is
  set only after a successful write.
\<close>

definition save_suspend_state :: "env \<Rightarrow> int list \<Rightarrow> real \<Rightarrow> sys \<Rightarrow> sys" where
  "save_suspend_state en pid_list resume_time s =
     (let data = suspension_record pid_list resume_time (now_saved en)
      in case write_result en of
           Written \<Rightarrow>
             emit (Save_state data Written) (s\<lparr>disk := Content data, active_suspended := Some data\<rparr>)
         | Open_failed \<Rightarrow> emit (Save_state data Open_failed) s
         | Dump_failed \<Rightarrow> emit (Save_state data Dump_failed) (s\<lparr>disk := Unreadable\<rparr>))"

text \<open>
  \<^verbatim>\<open>load_suspend_state\<close>: the items of the dictionary, or \<open>None\<close>. A value that
  is not a dictionary has no \<^verbatim>\<open>get\<close>: the exception is caught.
\<close>

definition load_suspend_state :: "sys \<Rightarrow> (string \<times> json) list option" where
  "load_suspend_state s =
     (case disk s of
        Missing \<Rightarrow> None
      | Unreadable \<Rightarrow> None
      | Content (JDict kv) \<Rightarrow>
          (case map_of kv ''pids'' of
             Some (JList xs) \<Rightarrow> if ''resume_time'' \<in> fst ` set kv then Some kv else None
           | _ \<Rightarrow> None)
      | Content _ \<Rightarrow> None)"

text \<open>\<^verbatim>\<open>clear_suspend_state\<close>: a failing \<^verbatim>\<open>os.remove\<close> is swallowed.\<close>

definition clear_suspend_state :: "env \<Rightarrow> sys \<Rightarrow> sys" where
  "clear_suspend_state en s =
     (let s1 = (if disk s \<noteq> Missing
                then (if remove_ok en
                      then emit (Remove_state True) (s\<lparr>disk := Missing\<rparr>)
                      else emit (Remove_state False) s)
                else s)
      in s1\<lparr>active_suspended := None\<rparr>)"

subsection \<open>Suspend and resume\<close>

text \<open>The loop of lines 235 to 243: the pids whose suspend succeeded are collected.\<close>

fun suspend_loop :: "env \<Rightarrow> int list \<Rightarrow> sys \<Rightarrow> int list \<Rightarrow> sys \<times> int list" where
  "suspend_loop en [] s suspended_pids = (s, suspended_pids)"
| "suspend_loop en (p # ps) s suspended_pids =
     (if can_suspend en p
      then suspend_loop en ps
             (emit (Os_suspend p True) (s\<lparr>suspended := insert p (suspended s)\<rparr>))
             (suspended_pids @ [p])
      else suspend_loop en ps (emit (Os_suspend p False) s) suspended_pids)"

text \<open>The loop of lines 258 to 264, over pids that are integers.\<close>

fun resume_loop :: "env \<Rightarrow> int list \<Rightarrow> sys \<Rightarrow> nat \<Rightarrow> sys \<times> nat" where
  "resume_loop en [] s resumed = (s, resumed)"
| "resume_loop en (p # ps) s resumed =
     (if can_resume en p
      then resume_loop en ps
             (emit (Os_resume p True) (s\<lparr>suspended := suspended s - {p}\<rparr>)) (resumed + 1)
      else resume_loop en ps (emit (Os_resume p False) s) resumed)"

text \<open>
  The loop of \<^verbatim>\<open>resume_pids\<close> (and of lines 693 to 698), over loaded values: a pid
  that \<^verbatim>\<open>int\<close> rejects is skipped without a call.
\<close>

fun resume_json_loop :: "env \<Rightarrow> json list \<Rightarrow> sys \<Rightarrow> nat \<Rightarrow> sys \<times> nat" where
  "resume_json_loop en [] s resumed = (s, resumed)"
| "resume_json_loop en (v # vs) s resumed =
     (case py_int en v of
        None \<Rightarrow> resume_json_loop en vs s resumed
      | Some p \<Rightarrow>
          if can_resume en p
          then resume_json_loop en vs
                 (emit (Os_resume p True) (s\<lparr>suspended := suspended s - {p}\<rparr>)) (resumed + 1)
          else resume_json_loop en vs (emit (Os_resume p False) s) resumed)"

definition resume_pids :: "env \<Rightarrow> json list \<Rightarrow> sys \<Rightarrow> sys \<times> nat" where
  "resume_pids en pid_list s = resume_json_loop en pid_list s 0"

text \<open>
  \<^verbatim>\<open>_suspend_resume_processes\<close>, the body of the thread that the Stop button
  starts. \<open>slept\<close> is the state after \<^verbatim>\<open>if time_left > 0: time.sleep(time_left)\<close>,
  and \<open>None\<close> when \<^verbatim>\<open>time.sleep\<close> raises: the thread ends there, nothing is
  resumed and the record stays.
\<close>

definition suspend_resume_processes :: "env \<Rightarrow> int list \<Rightarrow> real \<Rightarrow> sys \<Rightarrow> sys" where
  "suspend_resume_processes en pid_list seconds s =
     (let resume_time = now_start en + seconds;
          s1 = save_suspend_state en pid_list resume_time s;
          (s2, suspended_pids) = suspend_loop en pid_list s1 [];
          s3 = emit (Dialog (Info_stopped (length suspended_pids))) s2;
          time_left = resume_time - now_suspended en;
          slept = (if time_left > 0
                   then (if sleep_ok en time_left then Some (emit (Sleep time_left) s3) else None)
                   else Some s3)
      in case slept of
           None \<Rightarrow> emit (Sleep_failed (Fin time_left)) s3
         | Some s4 \<Rightarrow>
             (let (s5, resumed) = resume_loop en suspended_pids s4 0;
                  s6 = clear_suspend_state en s5
              in if resumed > 0 then emit (Dialog (Info_resumed_auto resumed)) s6 else s6))"



subsection \<open>Recovery at startup\<close>

text \<open>
  \<^verbatim>\<open>_delayed_resume_from_persisted\<close>. \<open>slept\<close> is the state after
  \<^verbatim>\<open>if wait > 0: time.sleep(wait)\<close>, and \<open>None\<close> when \<^verbatim>\<open>time.sleep\<close> raises,
  as it does on \<^verbatim>\<open>inf\<close>: the thread ends there.
\<close>

definition delayed_resume_from_persisted :: "env \<Rightarrow> json list \<Rightarrow> pyfloat \<Rightarrow> sys \<Rightarrow> sys" where
  "delayed_resume_from_persisted en pid_list resume_time s =
     (let wait = float_minus resume_time (now_delayed en);
          slept = (case wait of
                     Fin w \<Rightarrow>
                       if w > 0
                       then (if sleep_ok en w then Some (emit (Sleep w) s) else None)
                       else Some s
                   | PInf \<Rightarrow> None
                   | NInf \<Rightarrow> Some s
                   | NaN \<Rightarrow> Some s)
      in case slept of
           None \<Rightarrow> emit (Sleep_failed wait) s
         | Some s1 \<Rightarrow>
             (let (s2, resumed) = resume_json_loop en pid_list s1 0;
                  s3 = clear_suspend_state en s2
              in if resumed > 0 then emit (Dialog (Info_resumed_persisted resumed)) s3 else s3))"

text \<open>
  \<^verbatim>\<open>check_persisted_suspend_state\<close>. The result is \<open>None\<close> when
  \<^verbatim>\<open>float(state.get("resume_time", 0))\<close> or \<^verbatim>\<open>int(resume_time - now)\<close>
  raises: the exception leaves the function before anything is done.
\<close>

definition check_persisted_suspend_state :: "env \<Rightarrow> sys \<Rightarrow> sys option" where
  "check_persisted_suspend_state en s =
     (case load_suspend_state s of
        None \<Rightarrow> Some s
      | Some state \<Rightarrow>
          (let pid_list = (case map_of state ''pids'' of Some (JList xs) \<Rightarrow> xs | _ \<Rightarrow> [])
           in case py_float en
                     (case map_of state ''resume_time'' of Some v \<Rightarrow> v | None \<Rightarrow> JInt 0) of
                None \<Rightarrow> None
              | Some resume_time \<Rightarrow>
                  (case int_of_float (float_minus resume_time (now_check en)) of
                     None \<Rightarrow> None
                   | Some remaining \<Rightarrow>
                       if remaining \<le> 0
                       then (let (s1, resumed) = resume_pids en pid_list s;
                                 s2 = clear_suspend_state en s1
                             in Some (if resumed > 0
                                      then emit (Dialog (Info_resumed_elapsed resumed)) s2
                                      else s2))
                       else (let s1 = emit (Dialog (Ask_resume (length pid_list))) s
                             in case askyesno_resume en of
                                  Some True \<Rightarrow>
                                    (let (s2, resumed) = resume_pids en pid_list s1;
                                         s3 = clear_suspend_state en s2
                                     in Some (if resumed > 0
                                              then emit (Dialog (Info_resumed resumed)) s3
                                              else s3))
                                | Some False \<Rightarrow>
                                    Some (delayed_resume_from_persisted en pid_list resume_time s1)
                                | None \<Rightarrow>
                                    Some (delayed_resume_from_persisted en pid_list resume_time
                                            s1)))))"

subsection \<open>Notions used in the statements\<close>

text \<open>The display names of the groups above a limit that is in force.\<close>

definition high_names :: "real \<Rightarrow> group list \<Rightarrow> string set" where
  "high_names l ps = display_name ` {p \<in> set ps. l > 0 \<and> memory p > l}"

text \<open>A sample is kept when \<^verbatim>\<open>cpu_percent\<close> does not raise.\<close>

definition accepted :: "sample \<Rightarrow> bool" where
  "accepted s = (cpu_percent s \<noteq> None)"

definition members :: "pystr \<Rightarrow> string \<Rightarrow> sample list \<Rightarrow> sample list" where
  "members lib k samples = filter (\<lambda>s. accepted s \<and> group_key lib s = k) samples"

text \<open>Two samples are merged when one group of the output lists both pids.\<close>

definition merged :: "group list \<Rightarrow> sample \<Rightarrow> sample \<Rightarrow> bool" where
  "merged out s t = (\<exists>g \<in> set out. pid s \<in> set (pids g) \<and> pid t \<in> set (pids g))"

text \<open>Parts of the loop body of \<^verbatim>\<open>update_processes_list\<close>, named for the proofs.\<close>

definition mem_mb_of :: "sample \<Rightarrow> real" where
  "mem_mb_of s = (case memory_info s of None \<Rightarrow> 0 | Some rss \<Rightarrow> real rss / (1024 * 1024))"

definition slot :: "pystr \<Rightarrow> (string \<times> group) list \<Rightarrow> sample \<Rightarrow> group" where
  "slot lib procs s =
     (case map_of procs (group_key lib s) of
        None \<Rightarrow> new_group (group_key lib s) (raw_name lib s)
      | Some g \<Rightarrow> g)"

definition grown :: "group \<Rightarrow> nat \<Rightarrow> pid_detail \<Rightarrow> group" where
  "grown agg i d =
     agg\<lparr>pids := pids agg @ [i],
         cpu := cpu agg + pid_cpu d,
         memory := memory agg + pid_memory d,
         power_mw := power_mw agg + pid_power d,
         network := network agg + pid_network d,
         per_pid := (per_pid agg)(i \<mapsto> d)\<rparr>"

definition detail_at :: "real \<Rightarrow> net_io \<Rightarrow> sample \<Rightarrow> real \<Rightarrow> pid_detail" where
  "detail_at now m s c =
     \<lparr>pid_cpu = c, pid_memory = mem_mb_of s, pid_power = estimate_power_mw c,
      pid_network = fst (get_network_kbps_for_pid m (pid s) (io_counters s) now)\<rparr>"

text \<open>The invariants of the loop: the keys and members of the groups, and their sums.\<close>

definition key_inv :: "pystr \<Rightarrow> (string \<times> group) list \<Rightarrow> sample list \<Rightarrow> bool" where
  "key_inv lib procs samples =
     (distinct (map fst procs) \<and>
      (\<forall>k. case map_of procs k of
             None \<Rightarrow> members lib k samples = []
           | Some g \<Rightarrow> key g = k \<and> members lib k samples \<noteq> []
                        \<and> pids g = map pid (members lib k samples)
                        \<and> display_name g = raw_name lib (hd (members lib k samples))))"

definition sums_ok :: "group \<Rightarrow> bool" where
  "sums_ok g =
     (cpu g = sum_list (map (\<lambda>i. pid_cpu (detail_of g i)) (pids g))
      \<and> memory g = sum_list (map (\<lambda>i. pid_memory (detail_of g i)) (pids g))
      \<and> power_mw g = sum_list (map (\<lambda>i. pid_power (detail_of g i)) (pids g))
      \<and> network g = sum_list (map (\<lambda>i. pid_network (detail_of g i)) (pids g))
      \<and> set (pids g) \<subseteq> dom (per_pid g))"

definition sum_inv :: "(string \<times> group) list \<Rightarrow> bool" where
  "sum_inv procs = (\<forall>k g. map_of procs k = Some g \<longrightarrow> sums_ok g)"

definition is_digit :: "char \<Rightarrow> bool" where
  "is_digit c = (48 \<le> (of_char c :: nat) \<and> (of_char c :: nat) \<le> 57)"

text \<open>Views of a trace.\<close>

fun dialogs :: "event list \<Rightarrow> dialog list" where
  "dialogs [] = []"
| "dialogs (Dialog d # es) = d # dialogs es"
| "dialogs (e # es) = dialogs es"


fun is_storage :: "event \<Rightarrow> bool" where
  "is_storage (Save_state d w) = True"
| "is_storage (Remove_state ok) = True"
| "is_storage e = False"

fun is_prompt :: "event \<Rightarrow> bool" where
  "is_prompt (Dialog (Ask_resume n)) = True"
| "is_prompt e = False"

definition outside_storage :: "event list \<Rightarrow> event list" where
  "outside_storage tr = filter (\<lambda>e. \<not> is_storage e) tr"

text \<open>The recorded pids that \<^verbatim>\<open>int\<close> accepts, and the events of the loops.\<close>

definition int_pids :: "env \<Rightarrow> json list \<Rightarrow> int list" where
  "int_pids en vs = List.map_filter (py_int en) vs"

definition suspend_events :: "env \<Rightarrow> int list \<Rightarrow> event list" where
  "suspend_events en ps = map (\<lambda>p. Os_suspend p (can_suspend en p)) ps"

definition resume_events :: "env \<Rightarrow> int list \<Rightarrow> event list" where
  "resume_events en ps = map (\<lambda>p. Os_resume p (can_resume en p)) ps"

definition remove_events :: "env \<Rightarrow> disk_file \<Rightarrow> event list" where
  "remove_events en d = (if d \<noteq> Missing then [Remove_state (remove_ok en)] else [])"

text \<open>
  The branch of the recovery that resumes at once: \<^verbatim>\<open>resume_pids\<close>,
  \<^verbatim>\<open>clear_suspend_state\<close>, and a message when a process was resumed.
\<close>

definition resumed_now :: "env \<Rightarrow> json list \<Rightarrow> (nat \<Rightarrow> dialog) \<Rightarrow> sys \<Rightarrow> sys" where
  "resumed_now en vs msg s =
     (let (s1, resumed) = resume_pids en vs s;
          s2 = clear_suspend_state en s1
      in if resumed > 0 then emit (Dialog (msg resumed)) s2 else s2)"

subsection \<open>Concrete inputs\<close>

text \<open>
  An environment where every call succeeds and every clock reading is 1000, and the
  state of a freshly started application with no state file.
\<close>

definition demo_env :: env where
  "demo_env =
     \<lparr>int_of_str = (\<lambda>t. None), float_of_str = (\<lambda>t. None),
      now_start = 1000, now_saved = 1000, now_suspended = 1000, now_check = 1000,
      now_delayed = 1000, write_result = Written, remove_ok = True,
      can_suspend = (\<lambda>p. True), can_resume = (\<lambda>p. True), sleep_ok = (\<lambda>w. True),
      askyesno_resume = Some False\<rparr>"

definition init_sys :: sys where
  "init_sys = \<lparr>disk = Missing, active_suspended = None, suspended = {}, trace = []\<rparr>"

text \<open>
  On a name made of ASCII characters, \<^verbatim>\<open>str.lower\<close> maps the letters A to Z to
  a to z and \<^verbatim>\<open>str.strip\<close> removes the white space (the characters 9 to 13 and
  28 to 32) at both ends. The names of the samples below are such names.
\<close>

definition lower_char :: "char \<Rightarrow> char" where
  "lower_char c =
     (let n = (of_char c :: nat) in if 65 \<le> n \<and> n \<le> 90 then char_of (n + 32) else c)"

definition ascii_lower :: "string \<Rightarrow> string" where
  "ascii_lower s = map lower_char s"

definition is_space :: "char \<Rightarrow> bool" where
  "is_space c = (let n = (of_char c :: nat) in (9 \<le> n \<and> n \<le> 13) \<or> (28 \<le> n \<and> n \<le> 32))"

definition ascii_strip :: "string \<Rightarrow> string" where
  "ascii_strip s = rev (dropWhile is_space (rev (dropWhile is_space s)))"

definition demo_lib :: pystr where
  "demo_lib = \<lparr>str_lower = ascii_lower, str_strip = ascii_strip\<rparr>"

text \<open>
  One enumeration: two processes of one executable, named with different case and a
  trailing space, a helper without the suffix, and a process that is gone when its cpu
  is read.
\<close>

definition demo_samples :: "sample list" where
  "demo_samples =
     [\<lparr>pid = 1, name = Some ''Chrome.EXE'', memory_info = Some 1048576, cpu_percent = Some 10,
       io_counters = None\<rparr>,
      \<lparr>pid = 2, name = Some ''chrome.exe '', memory_info = Some 2097152, cpu_percent = Some 20,
       io_counters = None\<rparr>,
      \<lparr>pid = 3, name = Some ''helper'', memory_info = None, cpu_percent = Some 50,
       io_counters = None\<rparr>,
      \<lparr>pid = 4, name = None, memory_info = None, cpu_percent = None,
       io_counters = None\<rparr>]"

definition demo_groups :: "group list" where
  "demo_groups = fst (update_processes_list demo_lib 50 Map.empty demo_samples)"

text \<open>A state file found at startup, holding the pids 100 and 200.\<close>

definition demo_items :: "real \<Rightarrow> (string \<times> json) list" where
  "demo_items rt =
     [(''pids'', JList [JInt 100, JInt 200]), (''resume_time'', JFloat (Fin rt)),
      (''saved_at'', JFloat (Fin 990))]"

definition demo_recovering :: "real \<Rightarrow> sys" where
  "demo_recovering rt = init_sys\<lparr>disk := Content (JDict (demo_items rt))\<rparr>"

text \<open>A state file whose \<^verbatim>\<open>resume_time\<close> is an integer beyond the range of a float.\<close>

definition demo_huge :: int where
  "demo_huge = 10 ^ 400"

definition demo_unconvertible_items :: "(string \<times> json) list" where
  "demo_unconvertible_items =
     [(''pids'', JList [JInt 100, JInt 200]), (''resume_time'', JInt demo_huge),
      (''saved_at'', JFloat (Fin 990))]"

definition demo_unconvertible :: sys where
  "demo_unconvertible = init_sys\<lparr>disk := Content (JDict demo_unconvertible_items)\<rparr>"

subsection \<open>Lemmas: display\<close>

lemma high_names_Nil: "high_names l [] = {}"
  by (simp add: high_names_def)

lemma high_names_Cons:
  "high_names l (p # ps) = (if l > 0 \<and> memory p > l then {display_name p} else {}) \<union> high_names l ps"
  by (auto simp: high_names_def)

lemma display_loop_high:
  "current_high_names (foldl (display_group l) st ps) = current_high_names st \<union> high_names l ps"
  by (induction ps arbitrary: st) (auto simp: high_names_Nil high_names_Cons display_group_def Let_def)

lemma display_loop_alerted:
  "alerted_names (foldl (display_group l) st ps) = alerted_names st \<union> high_names l ps"
  by (induction ps arbitrary: st) (auto simp: high_names_Nil high_names_Cons display_group_def Let_def)

lemma display_loop_tags:
  "map row_tag (tree (foldl (display_group l) st ps)) =
     map row_tag (tree st) @ map (\<lambda>p. if l > 0 \<and> memory p > l then ''high_memory'' else '''') ps"
  by (induction ps arbitrary: st) (auto simp: display_group_def Let_def)

lemma display_loop_toast_names:
  "fst ` set (toasts (foldl (display_group l) st ps)) =
     fst ` set (toasts st) \<union> (high_names l ps - alerted_names st)"
proof (induction ps arbitrary: st)
  case Nil
  show ?case by (simp add: high_names_Nil)
next
  case (Cons p ps)
  show ?case
    unfolding foldl_Cons Cons.IH
    by (auto simp: high_names_Cons display_group_def Let_def)
qed

lemma display_loop_toast_distinct:
  "distinct (map fst (toasts st)) \<Longrightarrow> fst ` set (toasts st) \<subseteq> alerted_names st \<Longrightarrow>
   distinct (map fst (toasts (foldl (display_group l) st ps)))"
proof (induction ps arbitrary: st)
  case Nil
  then show ?case by simp
next
  case (Cons p ps)
  have d: "distinct (map fst (toasts (display_group l st p)))"
    using Cons.prems by (auto simp: display_group_def Let_def)
  have s: "fst ` set (toasts (display_group l st p)) \<subseteq> alerted_names (display_group l st p)"
    using Cons.prems by (auto simp: display_group_def Let_def)
  show ?case unfolding foldl_Cons by (rule Cons.IH [OF d s])
qed

lemma memory_limit_high:
  "(memory_limit_of (Some l) > 0 \<and> m > memory_limit_of (Some l)) = spec_high l m"
  by (auto simp: memory_limit_of_def spec_high_def)

lemma memory_limit_none: "memory_limit_of None = 0"
  by (simp add: memory_limit_of_def)


subsection \<open>Lemmas: the aggregation loop\<close>

lemma members_snoc:
  "members lib k (ss @ [s]) = members lib k ss @ (if accepted s \<and> group_key lib s = k then [s] else [])"
  by (simp add: members_def)

lemma process_sample_skip:
  "cpu_percent s = None \<Longrightarrow> process_sample lib now st s = st"
  by (simp add: process_sample_def Let_def split: prod.splits)

lemma process_sample_fst:
  "cpu_percent s = Some c \<Longrightarrow>
   fst (process_sample lib now (procs, m) s) =
     AList.update (group_key lib s) (grown (slot lib procs s) (pid s) (detail_at now m s c)) procs"
  by (simp add: process_sample_def Let_def mem_mb_of_def slot_def grown_def detail_at_def
        split: prod.splits)

lemma key_inv_step:
  assumes "key_inv lib procs ss"
  shows "key_inv lib (fst (process_sample lib now (procs, m) s)) (ss @ [s])"
proof (cases "cpu_percent s")
  case None
  then have eq: "members lib k (ss @ [s]) = members lib k ss" for k
    by (simp add: members_snoc accepted_def)
  have "key_inv lib procs (ss @ [s]) = key_inv lib procs ss"
    by (simp add: key_inv_def eq cong: option.case_cong)
  then show ?thesis using assms None
    by (simp add: process_sample_skip)
next
  case (Some c)
  have acc: "accepted s" using Some by (simp add: accepted_def)
  define g' where "g' = grown (slot lib procs s) (pid s) (detail_at now m s c)"
  have d: "distinct (map fst (AList.update (group_key lib s) g' procs))"
    using assms by (simp add: key_inv_def distinct_update)
  have "case map_of (AList.update (group_key lib s) g' procs) k of
             None \<Rightarrow> members lib k (ss @ [s]) = []
           | Some g \<Rightarrow> key g = k \<and> members lib k (ss @ [s]) \<noteq> []
                        \<and> pids g = map pid (members lib k (ss @ [s]))
                        \<and> display_name g = raw_name lib (hd (members lib k (ss @ [s])))" for k
  proof -
    have old: "case map_of procs k of
             None \<Rightarrow> members lib k ss = []
           | Some g \<Rightarrow> key g = k \<and> members lib k ss \<noteq> []
                        \<and> pids g = map pid (members lib k ss)
                        \<and> display_name g = raw_name lib (hd (members lib k ss))"
      using assms by (simp add: key_inv_def)
    show ?thesis
      using old acc
      by (auto simp: update_conv' members_snoc new_group_def g'_def slot_def grown_def
            split: option.splits)
  qed
  with d show ?thesis
    unfolding process_sample_fst [OF Some] key_inv_def g'_def by blast
qed

lemma foldl_process_sample_pair:
  "foldl (process_sample lib now) st (ss @ [s]) =
     process_sample lib now (fst (foldl (process_sample lib now) st ss), snd (foldl (process_sample lib now) st ss)) s"
  by simp

lemma key_inv_loop: "key_inv lib (fst (foldl (process_sample lib now) ([], m) samples)) samples"
proof (induction samples rule: rev_induct)
  case Nil
  show ?case by (simp add: key_inv_def members_def)
next
  case (snoc s ss)
  show ?case
    unfolding foldl_process_sample_pair by (rule key_inv_step [OF snoc.IH])
qed

lemma sums_ok_new: "sums_ok (new_group k d)"
  by (simp add: sums_ok_def new_group_def)

lemma detail_of_grown:
  "detail_of (grown g i d) j = (if j = i then d else detail_of g j)"
  by (simp add: detail_of_def grown_def)

lemma sums_ok_grown:
  assumes "sums_ok g" and "i \<notin> set (pids g)"
  shows "sums_ok (grown g i d)"
proof -
  have same: "sum_list (map (\<lambda>j. f (detail_of (grown g i d) j)) (pids g @ [i]))
                = sum_list (map (\<lambda>j. f (detail_of g j)) (pids g)) + f d"
    for f :: "pid_detail \<Rightarrow> real"
  proof -
    have "map (\<lambda>j. f (detail_of (grown g i d) j)) (pids g) = map (\<lambda>j. f (detail_of g j)) (pids g)"
      using assms(2) by (auto simp: detail_of_grown)
    then have "sum_list (map (\<lambda>j. f (detail_of (grown g i d) j)) (pids g))
                 = sum_list (map (\<lambda>j. f (detail_of g j)) (pids g))"
      by (rule arg_cong)
    moreover have "detail_of (grown g i d) i = d" by (simp add: detail_of_grown)
    ultimately show ?thesis by simp
  qed
  have p: "pids (grown g i d) = pids g @ [i]" by (simp add: grown_def)
  have c: "cpu (grown g i d) = cpu g + pid_cpu d"
    and m: "memory (grown g i d) = memory g + pid_memory d"
    and w: "power_mw (grown g i d) = power_mw g + pid_power d"
    and n: "network (grown g i d) = network g + pid_network d"
    and dm: "dom (per_pid (grown g i d)) = insert i (dom (per_pid g))"
    by (simp_all add: grown_def)
  show ?thesis
    using assms(1)
    unfolding sums_ok_def p same c m w n dm
    by auto
qed

lemma sum_inv_step:
  assumes k: "key_inv lib procs ss" and s: "sum_inv procs" and fresh: "pid s \<notin> pid ` set ss"
  shows "sum_inv (fst (process_sample lib now (procs, m) s))"
proof (cases "cpu_percent s")
  case None
  then show ?thesis using s by (simp add: process_sample_skip)
next
  case (Some c)
  have slot_ok: "sums_ok (slot lib procs s)"
    using s by (auto simp: slot_def sum_inv_def sums_ok_new split: option.splits)
  have "set (pids (slot lib procs s)) \<subseteq> pid ` set ss"
  proof (cases "map_of procs (group_key lib s)")
    case None
    then show ?thesis by (simp add: slot_def new_group_def)
  next
    case (Some g)
    have "pids g = map pid (members lib (group_key lib s) ss)"
      using k Some unfolding key_inv_def
      by (auto dest!: spec [where x = "group_key lib s"])
    then show ?thesis using Some by (auto simp: slot_def members_def)
  qed
  then have "pid s \<notin> set (pids (slot lib procs s))" using fresh by blast
  then have "sums_ok (grown (slot lib procs s) (pid s) (detail_at now m s c))"
    by (rule sums_ok_grown [OF slot_ok])
  then show ?thesis
    using s unfolding process_sample_fst [OF Some] sum_inv_def
    by (auto simp: update_conv')
qed

lemma sum_inv_loop:
  "distinct (map pid samples) \<Longrightarrow> sum_inv (fst (foldl (process_sample lib now) ([], m) samples))"
proof (induction samples rule: rev_induct)
  case Nil
  show ?case by (simp add: sum_inv_def)
next
  case (snoc s ss)
  have d: "distinct (map pid ss)" and f: "pid s \<notin> pid ` set ss"
    using snoc.prems by auto
  show ?case
    unfolding foldl_process_sample_pair
    by (rule sum_inv_step [OF key_inv_loop snoc.IH [OF d] f])
qed

lemma update_processes_list_set:
  "set (fst (update_processes_list lib now m samples)) =
     snd ` set (fst (foldl (process_sample lib now) ([], m) samples))"
  by (simp add: update_processes_list_def Let_def split: prod.splits)

lemma in_procs_map_of:
  "distinct (map fst procs) \<Longrightarrow> (k, g) \<in> set procs \<Longrightarrow> map_of procs k = Some g"
  by simp


subsection \<open>Lemmas: group keys\<close>

lemma digit_char_is_digit: "d < 10 \<Longrightarrow> is_digit (digit_char d)"
  by (simp add: is_digit_def digit_char_def)

lemma digit_char_inj: "a < 10 \<Longrightarrow> b < 10 \<Longrightarrow> digit_char a = digit_char b \<Longrightarrow> a = b"
proof -
  assume a: "a < 10" and b: "b < 10" and e: "digit_char a = digit_char b"
  have "(of_char (digit_char a) :: nat) = of_char (digit_char b)" using e by simp
  then show "a = b" using a b by (simp add: digit_char_def)
qed

lemma str_nat_nonempty: "str_nat n \<noteq> []"
  by (subst str_nat.simps) simp

lemma str_nat_digits: "c \<in> set (str_nat n) \<Longrightarrow> is_digit c"
proof (induction n arbitrary: c rule: str_nat.induct)
  case (1 n)
  show ?case
  proof (cases "n < 10")
    case True
    then show ?thesis using "1.prems"
      by (subst (asm) str_nat.simps) (simp add: digit_char_is_digit)
  next
    case False
    have "c \<in> set (str_nat (n div 10)) \<or> c = digit_char (n mod 10)"
      using "1.prems" False by (subst (asm) str_nat.simps) auto
    then show ?thesis
      using "1.IH" [OF False] by (auto simp: digit_char_is_digit)
  qed
qed

lemma str_nat_inj: "str_nat n = str_nat m \<Longrightarrow> n = m"
proof (induction n arbitrary: m rule: str_nat.induct)
  case (1 n)
  show ?case
  proof (cases "n < 10")
    case n: True
    show ?thesis
    proof (cases "m < 10")
      case True
      then show ?thesis using "1.prems" n
        by (simp add: str_nat.simps [of n] str_nat.simps [of m] digit_char_inj)
    next
      case False
      then show ?thesis using "1.prems" n str_nat_nonempty [of "m div 10"]
        by (simp add: str_nat.simps [of n] str_nat.simps [of m])
    qed
  next
    case n: False
    show ?thesis
    proof (cases "m < 10")
      case True
      then show ?thesis using "1.prems" n str_nat_nonempty [of "n div 10"]
        by (simp add: str_nat.simps [of n] str_nat.simps [of m])
    next
      case False
      have e: "str_nat (n div 10) = str_nat (m div 10)"
        and d: "digit_char (n mod 10) = digit_char (m mod 10)"
        using "1.prems" n False
        by (simp_all add: str_nat.simps [of n] str_nat.simps [of m])
      have q: "n div 10 = m div 10" by (rule "1.IH" [OF n e])
      have r: "n mod 10 = m mod 10" by (rule digit_char_inj [OF _ _ d]) simp_all
      have "n = 10 * (n div 10) + n mod 10" by simp
      also have "\<dots> = 10 * (m div 10) + m mod 10" using q r by simp
      also have "\<dots> = m" by simp
      finally show ?thesis .
    qed
  qed
qed

lemma underscore_not_digit: "is_digit c \<Longrightarrow> c \<noteq> CHR ''_''"
  by (auto simp: is_digit_def)

lemma e_not_digit: "is_digit c \<Longrightarrow> c \<noteq> CHR ''e''"
  by (auto simp: is_digit_def)

lemma split_last_underscore:
  assumes "a @ ''_'' @ d1 = b @ ''_'' @ d2"
      and "\<forall>c \<in> set d1. c \<noteq> CHR ''_''" and "\<forall>c \<in> set d2. c \<noteq> CHR ''_''"
  shows "a = b \<and> d1 = d2"
proof -
  have t: "takeWhile (\<lambda>c. c \<noteq> CHR ''_'') (rev (x @ ''_'' @ d)) = rev d"
    if "\<forall>c \<in> set d. c \<noteq> CHR ''_''" for x d :: string
  proof -
    have "takeWhile (\<lambda>c. c \<noteq> CHR ''_'') (rev d @ (CHR ''_'' # rev x))
            = rev d @ takeWhile (\<lambda>c. c \<noteq> CHR ''_'') (CHR ''_'' # rev x)"
      by (rule takeWhile_append2) (use that in auto)
    then show ?thesis by simp
  qed
  have "rev d1 = takeWhile (\<lambda>c. c \<noteq> CHR ''_'') (rev (a @ ''_'' @ d1))"
    using t [OF assms(2), of a] by simp
  also have "\<dots> = takeWhile (\<lambda>c. c \<noteq> CHR ''_'') (rev (b @ ''_'' @ d2))"
    by (simp only: assms(1))
  also have "\<dots> = rev d2"
    using t [OF assms(3), of b] by simp
  finally have "rev d1 = rev d2" .
  then have "d1 = d2" by simp
  then show ?thesis using assms(1) by simp
qed

lemma endswith_exe_last: "endswith x ''.exe'' \<Longrightarrow> x \<noteq> [] \<and> last x = CHR ''e''"
proof -
  assume e: "endswith x ''.exe''"
  define n where "n = length x - length ''.exe''"
  have "x = take n x @ drop n x" by simp
  moreover have "drop n x = ''.exe''" using e by (simp add: endswith_def n_def)
  ultimately have "x = take n x @ ''.exe''" by simp
  then obtain y where "x = y @ ''.exe''" ..
  then show ?thesis by simp
qed

lemma group_key_eq_iff:
  assumes "pid s \<noteq> pid t"
  shows "group_key lib s = group_key lib t \<longleftrightarrow>
           endswith (name_lower lib s) ''.exe'' \<and> endswith (name_lower lib t) ''.exe''
           \<and> name_lower lib s = name_lower lib t"
proof -
  have dig: "\<forall>c \<in> set (str_nat n). c \<noteq> CHR ''_''" for n
    using str_nat_digits underscore_not_digit by blast
  have lastd: "last (x @ ''_'' @ str_nat n) \<noteq> CHR ''e''" for x n
  proof -
    have "last (x @ ''_'' @ str_nat n) = last (str_nat n)"
      using str_nat_nonempty [of n] by simp
    moreover have "last (str_nat n) \<in> set (str_nat n)"
      using str_nat_nonempty [of n] by simp
    ultimately show ?thesis using str_nat_digits e_not_digit by metis
  qed
  have mixed: "group_key lib u \<noteq> group_key lib v"
    if u: "endswith (name_lower lib u) ''.exe''" and v: "\<not> endswith (name_lower lib v) ''.exe''" for u v
  proof
    assume e: "group_key lib u = group_key lib v"
    have "group_key lib u = name_lower lib u" using u by (simp add: group_key_def)
    then have "last (group_key lib u) = CHR ''e''" using endswith_exe_last [OF u] by simp
    moreover have "group_key lib v = name_lower lib v @ ''_'' @ str_nat (pid v)"
      using v by (simp add: group_key_def)
    then have "last (group_key lib v) \<noteq> CHR ''e''" using lastd by simp
    ultimately show False using e by simp
  qed
  show ?thesis
  proof (cases "endswith (name_lower lib s) ''.exe''"; cases "endswith (name_lower lib t) ''.exe''")
    assume "endswith (name_lower lib s) ''.exe''" "endswith (name_lower lib t) ''.exe''"
    then show ?thesis by (simp add: group_key_def)
  next
    assume a: "endswith (name_lower lib s) ''.exe''" "\<not> endswith (name_lower lib t) ''.exe''"
    show ?thesis using mixed [OF a] a by simp
  next
    assume a: "\<not> endswith (name_lower lib s) ''.exe''" "endswith (name_lower lib t) ''.exe''"
    show ?thesis using mixed [OF a(2) a(1)] a by auto
  next
    assume a: "\<not> endswith (name_lower lib s) ''.exe''" "\<not> endswith (name_lower lib t) ''.exe''"
    have "group_key lib s \<noteq> group_key lib t"
    proof
      assume "group_key lib s = group_key lib t"
      then have "name_lower lib s @ ''_'' @ str_nat (pid s) = name_lower lib t @ ''_'' @ str_nat (pid t)"
        using a by (simp add: group_key_def)
      then have "str_nat (pid s) = str_nat (pid t)"
        using split_last_underscore [OF _ dig dig] by blast
      then show False using assms str_nat_inj by blast
    qed
    then show ?thesis using a by simp
  qed
qed

lemma filter_only:
  "distinct xs \<Longrightarrow> s \<in> set xs \<Longrightarrow> (\<And>x. x \<in> set xs \<Longrightarrow> P x = (x = s)) \<Longrightarrow> filter P xs = [s]"
proof (induction xs)
  case Nil
  then show ?case by simp
next
  case (Cons a xs)
  show ?case
  proof (cases "a = s")
    case True
    then have "s \<notin> set xs" using Cons.prems(1) by simp
    then have "filter P xs = []" using Cons.prems(3) by (auto simp: filter_empty_conv)
    then show ?thesis using True Cons.prems(3) by simp
  next
    case False
    then have "s \<in> set xs" using Cons.prems(2) by simp
    then have "filter P xs = [s]" using Cons.IH Cons.prems by simp
    then show ?thesis using False Cons.prems(3) [of a] by simp
  qed
qed

lemma out_group:
  assumes "g \<in> set (fst (update_processes_list lib now m samples))"
  shows "pids g = map pid (members lib (key g) samples) \<and> members lib (key g) samples \<noteq> []"
proof -
  let ?procs = "fst (foldl (process_sample lib now) ([], m) samples)"
  obtain k where kg: "(k, g) \<in> set ?procs"
    using assms unfolding update_processes_list_set by auto
  have ki: "key_inv lib ?procs samples" by (rule key_inv_loop)
  then have "map_of ?procs k = Some g" using kg by (simp add: key_inv_def)
  then show ?thesis
    using ki unfolding key_inv_def by (auto dest!: spec [where x = k])
qed

lemma out_group_exists:
  assumes "s \<in> set samples" and "accepted s"
  shows "\<exists>g \<in> set (fst (update_processes_list lib now m samples)).
           key g = group_key lib s \<and> pids g = map pid (members lib (group_key lib s) samples)"
proof -
  let ?procs = "fst (foldl (process_sample lib now) ([], m) samples)"
  have ki: "key_inv lib ?procs samples" by (rule key_inv_loop)
  have ne: "members lib (group_key lib s) samples \<noteq> []"
    using assms by (auto simp: members_def filter_empty_conv)
  then obtain g where g: "map_of ?procs (group_key lib s) = Some g"
    using ki unfolding key_inv_def
    by (cases "map_of ?procs (group_key lib s)") (auto dest!: spec [where x = "group_key lib s"])
  then have "key g = group_key lib s \<and> pids g = map pid (members lib (group_key lib s) samples)"
    using ki unfolding key_inv_def by (auto dest!: spec [where x = "group_key lib s"])
  moreover have "g \<in> set (fst (update_processes_list lib now m samples))"
    unfolding update_processes_list_set using map_of_SomeD [OF g] by force
  ultimately show ?thesis by blast
qed

lemma merged_iff_key:
  assumes d: "distinct (map pid samples)"
      and s: "s \<in> set samples" "accepted s" and t: "t \<in> set samples" "accepted t"
  shows "merged (fst (update_processes_list lib now m samples)) s t \<longleftrightarrow> group_key lib s = group_key lib t"
proof
  assume "merged (fst (update_processes_list lib now m samples)) s t"
  then obtain g where g: "g \<in> set (fst (update_processes_list lib now m samples))"
      and ps: "pid s \<in> set (pids g)" and pt: "pid t \<in> set (pids g)"
    by (auto simp: merged_def)
  have inj: "inj_on pid (set samples)" using d by (simp add: distinct_map)
  have mem: "pids g = map pid (members lib (key g) samples)" using out_group [OF g] by simp
  have "group_key lib u = key g" if u1: "u \<in> set samples" and u2: "pid u \<in> set (pids g)" for u
  proof -
    obtain u' where u': "u' \<in> set samples" "group_key lib u' = key g" "pid u' = pid u"
      using u2 unfolding mem by (auto simp: members_def)
    then have "u' = u" using inj u1 by (auto dest: inj_onD)
    then show ?thesis using u' by simp
  qed
  then show "group_key lib s = group_key lib t" using s t ps pt by simp
next
  assume e: "group_key lib s = group_key lib t"
  obtain g where g: "g \<in> set (fst (update_processes_list lib now m samples))"
      and p: "pids g = map pid (members lib (group_key lib s) samples)"
    using out_group_exists [OF s] by blast
  have "pid s \<in> set (pids g)" "pid t \<in> set (pids g)"
    unfolding p using s t e by (auto simp: members_def)
  then show "merged (fst (update_processes_list lib now m samples)) s t"
    using g by (auto simp: merged_def)
qed


subsection \<open>Lemmas: traces of suspend and resume\<close>

lemma trace_emit: "trace (emit e s) = trace s @ [e]"
  by (simp add: emit_def)

lemma disk_emit: "disk (emit e s) = disk s"
  by (simp add: emit_def)

lemma suspend_loop_trace:
  "trace (fst (suspend_loop en ps s acc)) = trace s @ suspend_events en ps"
  by (induction ps arbitrary: s acc) (simp_all add: suspend_events_def trace_emit)

lemma suspend_loop_pids:
  "snd (suspend_loop en ps s acc) = acc @ filter (can_suspend en) ps"
  by (induction ps arbitrary: s acc) simp_all

lemma suspend_loop_disk:
  "disk (fst (suspend_loop en ps s acc)) = disk s"
  by (induction ps arbitrary: s acc) (simp_all add: disk_emit)

lemma resume_loop_trace:
  "trace (fst (resume_loop en ps s n)) = trace s @ resume_events en ps"
  by (induction ps arbitrary: s n) (simp_all add: resume_events_def trace_emit)

lemma resume_loop_count:
  "snd (resume_loop en ps s n) = n + length (filter (can_resume en) ps)"
  by (induction ps arbitrary: s n) simp_all

lemma resume_loop_disk:
  "disk (fst (resume_loop en ps s n)) = disk s"
  by (induction ps arbitrary: s n) (simp_all add: disk_emit)

lemma resume_json_loop_eq:
  "resume_json_loop en vs s n = resume_loop en (int_pids en vs) s n"
  by (induction vs arbitrary: s n)
     (auto simp: int_pids_def split: option.splits)

lemma clear_trace:
  "trace (clear_suspend_state en s) = trace s @ remove_events en (disk s)"
  by (simp add: clear_suspend_state_def remove_events_def trace_emit Let_def)

lemma clear_active: "active_suspended (clear_suspend_state en s) = None"
  by (simp add: clear_suspend_state_def Let_def)

lemma clear_disk:
  "disk (clear_suspend_state en s) = (if remove_ok en then Missing else disk s)"
  by (simp add: clear_suspend_state_def Let_def disk_emit)

lemma save_trace:
  "trace (save_suspend_state en ps rt s) =
     trace s @ [Save_state (suspension_record ps rt (now_saved en)) (write_result en)]"
  by (simp add: save_suspend_state_def Let_def trace_emit split: write_outcome.splits)


lemma resume_loop_pair:
  assumes "resume_loop en ps s n0 = (s', n)"
  shows "trace s' = trace s @ resume_events en ps"
    and "n = n0 + length (filter (can_resume en) ps)"
    and "disk s' = disk s"
  using resume_loop_trace [of en ps s n0] resume_loop_count [of en ps s n0]
    resume_loop_disk [of en ps s n0] assms
  by simp_all

text \<open>The events of the loop of resumes, the clearing of the record and the message.\<close>

lemma resume_clear_trace:
  "trace (case resume_loop en ps s 0 of
            (s5, resumed) \<Rightarrow>
              if resumed > 0 then emit (Dialog (msg resumed)) (clear_suspend_state en s5)
              else clear_suspend_state en s5) =
     trace s @ resume_events en ps @ remove_events en (disk s)
     @ (if 0 < length (filter (can_resume en) ps)
        then [Dialog (msg (length (filter (can_resume en) ps)))] else [])"
proof -
  obtain s5 n where r: "resume_loop en ps s 0 = (s5, n)" by (cases "resume_loop en ps s 0")
  show ?thesis
    using resume_loop_pair [OF r]
    by (simp add: r trace_emit clear_trace)
qed

lemma resume_clear_state:
  "active_suspended (case resume_loop en ps s 0 of
            (s5, resumed) \<Rightarrow>
              if resumed > 0 then emit (Dialog (msg resumed)) (clear_suspend_state en s5)
              else clear_suspend_state en s5) = None
   \<and> disk (case resume_loop en ps s 0 of
            (s5, resumed) \<Rightarrow>
              if resumed > 0 then emit (Dialog (msg resumed)) (clear_suspend_state en s5)
              else clear_suspend_state en s5) = (if remove_ok en then Missing else disk s)"
proof -
  obtain s5 n where r: "resume_loop en ps s 0 = (s5, n)" by (cases "resume_loop en ps s 0")
  show ?thesis
    using resume_loop_pair [OF r]
    by (simp add: r emit_def clear_active clear_disk)
qed

lemma suspend_resume_trace:
  "trace (suspend_resume_processes en pid_list seconds s) =
     trace s
     @ [Save_state (suspension_record pid_list (now_start en + seconds) (now_saved en)) (write_result en)]
     @ suspend_events en pid_list
     @ [Dialog (Info_stopped (length (filter (can_suspend en) pid_list)))]
     @ (if now_start en + seconds - now_suspended en > 0
           \<and> \<not> sleep_ok en (now_start en + seconds - now_suspended en)
        then [Sleep_failed (Fin (now_start en + seconds - now_suspended en))]
        else (if now_start en + seconds - now_suspended en > 0
              then [Sleep (now_start en + seconds - now_suspended en)] else [])
             @ resume_events en (filter (can_suspend en) pid_list)
             @ remove_events en (disk (save_suspend_state en pid_list (now_start en + seconds) s))
             @ (if 0 < length (filter (can_resume en) (filter (can_suspend en) pid_list))
                then [Dialog (Info_resumed_auto
                        (length (filter (can_resume en) (filter (can_suspend en) pid_list))))]
                else []))"
proof -
  define rt where "rt = now_start en + seconds"
  define left where "left = rt - now_suspended en"
  define s1 where "s1 = save_suspend_state en pid_list rt s"
  define s2 where "s2 = fst (suspend_loop en pid_list s1 [])"
  define ok where "ok = filter (can_suspend en) pid_list"
  define s3 where "s3 = emit (Dialog (Info_stopped (length ok))) s2"
  define slept where "slept =
    (if left > 0 then (if sleep_ok en left then Some (emit (Sleep left) s3) else None)
     else Some s3)"
  have loop1: "suspend_loop en pid_list s1 [] = (s2, ok)"
    using suspend_loop_pids [of en pid_list s1 "[]"]
    by (simp add: s2_def ok_def prod_eq_iff)
  have run: "suspend_resume_processes en pid_list seconds s =
               (case slept of
                  None \<Rightarrow> emit (Sleep_failed (Fin left)) s3
                | Some s4 \<Rightarrow>
                    (case resume_loop en ok s4 0 of
                       (s5, resumed) \<Rightarrow>
                         if resumed > 0
                         then emit (Dialog (Info_resumed_auto resumed)) (clear_suspend_state en s5)
                         else clear_suspend_state en s5))"
    unfolding suspend_resume_processes_def Let_def
    by (simp only: rt_def [symmetric] left_def [symmetric] s1_def [symmetric] loop1 prod.case
          s3_def [symmetric] slept_def [symmetric])
  have t1: "trace s1 = trace s @ [Save_state (suspension_record pid_list rt (now_saved en)) (write_result en)]"
    by (simp add: s1_def save_trace)
  have t2: "trace s2 = trace s1 @ suspend_events en pid_list"
    by (simp add: s2_def suspend_loop_trace)
  have t3: "trace s3 = trace s2 @ [Dialog (Info_stopped (length ok))]"
    by (simp add: s3_def trace_emit)
  have d3: "disk s3 = disk s1"
    by (simp add: s3_def s2_def suspend_loop_disk disk_emit)
  have "trace (suspend_resume_processes en pid_list seconds s) =
          trace s3
          @ (if left > 0 \<and> \<not> sleep_ok en left
             then [Sleep_failed (Fin left)]
             else (if left > 0 then [Sleep left] else [])
                  @ resume_events en ok @ remove_events en (disk s1)
                  @ (if 0 < length (filter (can_resume en) ok)
                     then [Dialog (Info_resumed_auto (length (filter (can_resume en) ok)))]
                     else []))"
    unfolding run slept_def
    by (simp add: trace_emit resume_clear_trace disk_emit d3)
  then show ?thesis
    unfolding t3 t2 t1 by (simp add: rt_def left_def ok_def s1_def)
qed

subsection \<open>Lemmas: recovery\<close>

lemma py_trunc_le0: "py_trunc x \<le> 0 \<longleftrightarrow> x < 1"
proof (cases "0 \<le> x")
  case True
  have "\<lfloor>x\<rfloor> \<le> 0 \<longleftrightarrow> x < 1" by linarith
  then show ?thesis using True by (simp add: py_trunc_def)
next
  case False
  then have "\<lceil>x\<rceil> \<le> 0" by linarith
  then show ?thesis using False by (simp add: py_trunc_def)
qed

lemma resume_pids_trace:
  "trace (fst (resume_pids en vs s)) = trace s @ resume_events en (int_pids en vs)"
  by (simp add: resume_pids_def resume_json_loop_eq resume_loop_trace)

lemma resume_pids_count:
  "snd (resume_pids en vs s) = length (filter (can_resume en) (int_pids en vs))"
  by (simp add: resume_pids_def resume_json_loop_eq resume_loop_count)

lemma resume_pids_disk: "disk (fst (resume_pids en vs s)) = disk s"
  by (simp add: resume_pids_def resume_json_loop_eq resume_loop_disk)

lemma load_record:
  assumes "disk s = Content (JDict kv)" and "map_of kv ''pids'' = Some (JList vs)"
      and "map_of kv ''resume_time'' = Some v"
  shows "load_suspend_state s = Some kv"
proof -
  have "(''resume_time'', v) \<in> set kv" using assms(3) by (rule map_of_SomeD)
  then have "''resume_time'' \<in> fst ` set kv" by force
  then show ?thesis using assms(1,2) by (simp add: load_suspend_state_def)
qed

lemma resumed_now_trace:
  "trace (resumed_now en vs msg s) =
     trace s @ resume_events en (int_pids en vs) @ remove_events en (disk s)
     @ (if 0 < length (filter (can_resume en) (int_pids en vs))
        then [Dialog (msg (length (filter (can_resume en) (int_pids en vs))))] else [])"
proof -
  obtain s1 n where r: "resume_pids en vs s = (s1, n)" by (cases "resume_pids en vs s")
  have t: "trace s1 = trace s @ resume_events en (int_pids en vs)"
    using resume_pids_trace [of en vs s] r by simp
  have n: "n = length (filter (can_resume en) (int_pids en vs))"
    using resume_pids_count [of en vs s] r by simp
  have d: "disk s1 = disk s" using resume_pids_disk [of en vs s] r by simp
  show ?thesis
    by (simp add: resumed_now_def r Let_def trace_emit clear_trace t d n [symmetric])
qed

lemma resumed_now_state:
  "active_suspended (resumed_now en vs msg s) = None
   \<and> disk (resumed_now en vs msg s) = (if remove_ok en then Missing else disk s)"
proof -
  obtain s1 n where r: "resume_pids en vs s = (s1, n)" by (cases "resume_pids en vs s")
  have d: "disk s1 = disk s" using resume_pids_disk [of en vs s] r by simp
  show ?thesis
    by (simp add: resumed_now_def r Let_def emit_def clear_active clear_disk d)
qed

lemma check_overdue:
  assumes "disk s = Content (JDict kv)" and "map_of kv ''pids'' = Some (JList vs)"
      and "map_of kv ''resume_time'' = Some v" and "py_float en v = Some (Fin rt)"
      and "rt - now_check en < 1"
  shows "check_persisted_suspend_state en s = Some (resumed_now en vs Info_resumed_elapsed s)"
  using assms(2-5)
  by (simp add: check_persisted_suspend_state_def load_record [OF assms(1-3)] Let_def
        py_trunc_le0 resumed_now_def split: prod.splits)

lemma check_raises:
  assumes "disk s = Content (JDict kv)" and "map_of kv ''pids'' = Some (JList vs)"
      and "map_of kv ''resume_time'' = Some v" and "\<forall>r. py_float en v \<noteq> Some (Fin r)"
  shows "check_persisted_suspend_state en s = None"
proof (cases "py_float en v")
  case None
  then show ?thesis
    using assms(2,3)
    by (simp add: check_persisted_suspend_state_def load_record [OF assms(1-3)] Let_def)
next
  case (Some x)
  then have "int_of_float (float_minus x (now_check en)) = None"
    using assms(4) by (cases x) simp_all
  then show ?thesis
    using assms(2,3) Some
    by (simp add: check_persisted_suspend_state_def load_record [OF assms(1-3)] Let_def)
qed

text \<open>The events of the thread that waits for the recorded deadline.\<close>

lemma delayed_trace:
  "trace (delayed_resume_from_persisted en vs (Fin rt) s) =
     trace s
     @ (if rt - now_delayed en > 0 \<and> \<not> sleep_ok en (rt - now_delayed en)
        then [Sleep_failed (Fin (rt - now_delayed en))]
        else (if rt - now_delayed en > 0 then [Sleep (rt - now_delayed en)] else [])
             @ resume_events en (int_pids en vs)
             @ remove_events en (disk s)
             @ (if 0 < length (filter (can_resume en) (int_pids en vs))
                then [Dialog (Info_resumed_persisted
                        (length (filter (can_resume en) (int_pids en vs))))]
                else []))"
proof -
  define w where "w = rt - now_delayed en"
  have run: "delayed_resume_from_persisted en vs (Fin rt) s =
       (case (if w > 0 then (if sleep_ok en w then Some (emit (Sleep w) s) else None) else Some s) of
          None \<Rightarrow> emit (Sleep_failed (Fin w)) s
        | Some s1 \<Rightarrow>
            (case resume_loop en (int_pids en vs) s1 0 of
               (s2, resumed) \<Rightarrow>
                 if resumed > 0
                 then emit (Dialog (Info_resumed_persisted resumed)) (clear_suspend_state en s2)
                 else clear_suspend_state en s2))"
    by (simp add: delayed_resume_from_persisted_def Let_def resume_json_loop_eq w_def)
  show ?thesis
    unfolding run w_def [symmetric]
    by (simp add: trace_emit resume_clear_trace disk_emit)
qed

lemma check_pending:
  assumes "disk s = Content (JDict kv)" and "map_of kv ''pids'' = Some (JList vs)"
      and "map_of kv ''resume_time'' = Some v" and "py_float en v = Some (Fin rt)"
      and "1 \<le> rt - now_check en"
  shows "check_persisted_suspend_state en s =
           Some (case askyesno_resume en of
                   Some True \<Rightarrow>
                     resumed_now en vs Info_resumed (emit (Dialog (Ask_resume (length vs))) s)
                 | Some False \<Rightarrow>
                     delayed_resume_from_persisted en vs (Fin rt)
                       (emit (Dialog (Ask_resume (length vs))) s)
                 | None \<Rightarrow>
                     delayed_resume_from_persisted en vs (Fin rt)
                       (emit (Dialog (Ask_resume (length vs))) s))"
proof -
  have notdue: "\<not> py_trunc (rt - now_check en) \<le> 0"
    using assms(5) by (simp add: py_trunc_le0)
  show ?thesis
    using assms(2-4) notdue
    by (simp add: check_persisted_suspend_state_def load_record [OF assms(1-3)] Let_def
          resumed_now_def split: prod.splits option.splits bool.splits)
qed

subsection \<open>Lemmas: the concrete inputs\<close>

lemmas str_eval = demo_lib_def ascii_lower_def lower_char_def ascii_strip_def is_space_def
  endswith_def
  digit_char_def char_of_def bit_Suc_0_iff

lemma demo_groups_pids: "map pids demo_groups = [[3], [1, 2]]"
  by (simp add: demo_groups_def update_processes_list_def process_sample_def demo_samples_def
        group_key_def name_lower_def raw_name_def str_eval str_nat.simps Let_def new_group_def
        get_network_kbps_for_pid_def estimate_power_mw_def CPU_TDP_WATTS_def)

lemma demo_groups_memory: "map memory demo_groups = [0, 3]"
  by (simp add: demo_groups_def update_processes_list_def process_sample_def demo_samples_def
        group_key_def name_lower_def raw_name_def str_eval str_nat.simps Let_def new_group_def
        get_network_kbps_for_pid_def estimate_power_mw_def CPU_TDP_WATTS_def)

lemma demo_samples_distinct: "distinct (map pid demo_samples)"
  by (simp add: demo_samples_def)

lemma demo_huge_beyond: "\<not> \<bar>demo_huge\<bar> < FLOAT_INT_LIMIT"
  by (simp add: demo_huge_def FLOAT_INT_LIMIT_def)

lemma demo_recovering_disk: "disk (demo_recovering rt) = Content (JDict (demo_items rt))"
  by (simp add: demo_recovering_def)

lemma demo_items_pids: "map_of (demo_items rt) ''pids'' = Some (JList [JInt 100, JInt 200])"
  by (simp add: demo_items_def)

lemma demo_items_resume_time:
  "map_of (demo_items rt) ''resume_time'' = Some (JFloat (Fin rt))"
  by (simp add: demo_items_def)

lemma demo_items_record: "JDict (demo_items rt) = suspension_record [100, 200] rt 990"
  by (simp add: demo_items_def suspension_record_def)

subsection \<open>Lemmas: views of a trace\<close>




lemma dialogs_append: "dialogs (xs @ ys) = dialogs xs @ dialogs ys"
  by (induction xs rule: dialogs.induct) simp_all

lemma dialogs_suspend_events: "dialogs (suspend_events en ps) = []"
  by (induction ps) (simp_all add: suspend_events_def)

lemma dialogs_resume_events: "dialogs (resume_events en ps) = []"
  by (induction ps) (simp_all add: resume_events_def)

lemma dialogs_remove_events: "dialogs (remove_events en d) = []"
  by (simp add: remove_events_def)

lemma not_storage_remove_events: "filter (\<lambda>e. \<not> is_storage e) (remove_events en d) = []"
  by (simp add: remove_events_def)

lemma int_pids_written: "int_pids en (map JInt ps) = ps"
  by (induction ps) (simp_all add: int_pids_def)


subsection \<open>Claims\<close>



text \<open>
  Claim C2, as the code has it. Let the state file hold a dictionary whose
  \<^verbatim>\<open>pids\<close> is a list and which has a \<^verbatim>\<open>resume_time\<close>. When \<^verbatim>\<open>float\<close>
  converts the \<^verbatim>\<open>resume_time\<close> to a finite number, the recovery compares the whole
  seconds that remain, \<^verbatim>\<open>int(resume_time - now)\<close>, with 0.

  When \<open>resume_time - now < 1\<close>, every recorded pid that \<^verbatim>\<open>int\<close> accepts is sent a
  resume, the record is cleared, and no prompt is shown.

  When \<open>resume_time - now \<ge> 1\<close>, the prompt comes first. If the operator answers yes,
  the pids are resumed and the record is cleared. Otherwise (the answer is no, or the
  message box raises) the thread sleeps until \<^verbatim>\<open>resume_time\<close> when that is still
  ahead, and only then resumes the pids and clears the record; when \<^verbatim>\<open>time.sleep\<close>
  rejects the duration, nothing is resumed and the record stays.

  When \<^verbatim>\<open>float\<close> raises on the \<^verbatim>\<open>resume_time\<close>, or gives \<^verbatim>\<open>nan\<close> or an
  infinity, on which \<^verbatim>\<open>int\<close> raises, the recovery raises before any resume or
  prompt. The pids written by \<^verbatim>\<open>save_suspend_state\<close> are all accepted by
  \<^verbatim>\<open>int\<close>.
\<close>

theorem recovery_by_whole_seconds:
  assumes "disk s = Content (JDict kv)" and "map_of kv ''pids'' = Some (JList vs)"
      and "map_of kv ''resume_time'' = Some v"
  shows "(py_float en v = Some (Fin rt) \<and> rt - now_check en < 1 \<longrightarrow>
           (\<exists>s'. check_persisted_suspend_state en s = Some s'
              \<and> trace s' =
                  trace s @ resume_events en (int_pids en vs) @ [Remove_state (remove_ok en)]
                  @ (if 0 < length (filter (can_resume en) (int_pids en vs))
                     then [Dialog (Info_resumed_elapsed
                             (length (filter (can_resume en) (int_pids en vs))))]
                     else [])
              \<and> active_suspended s' = None
              \<and> disk s' = (if remove_ok en then Missing else disk s)))
     \<and> (py_float en v = Some (Fin rt) \<and> 1 \<le> rt - now_check en \<longrightarrow>
           (\<exists>s'. check_persisted_suspend_state en s = Some s'
              \<and> trace s' =
                  trace s @ [Dialog (Ask_resume (length vs))]
                  @ (if askyesno_resume en = Some True
                     then resume_events en (int_pids en vs) @ [Remove_state (remove_ok en)]
                          @ (if 0 < length (filter (can_resume en) (int_pids en vs))
                             then [Dialog (Info_resumed
                                     (length (filter (can_resume en) (int_pids en vs))))]
                             else [])
                     else if rt - now_delayed en > 0 \<and> \<not> sleep_ok en (rt - now_delayed en)
                     then [Sleep_failed (Fin (rt - now_delayed en))]
                     else (if rt - now_delayed en > 0 then [Sleep (rt - now_delayed en)] else [])
                          @ resume_events en (int_pids en vs) @ [Remove_state (remove_ok en)]
                          @ (if 0 < length (filter (can_resume en) (int_pids en vs))
                             then [Dialog (Info_resumed_persisted
                                     (length (filter (can_resume en) (int_pids en vs))))]
                             else []))))
     \<and> ((\<forall>r. py_float en v \<noteq> Some (Fin r)) \<longrightarrow> check_persisted_suspend_state en s = None)
     \<and> int_pids en (map JInt ps) = ps"
proof -
  have r: "remove_events en (disk s) = [Remove_state (remove_ok en)]"
    using assms(1) by (simp add: remove_events_def)
  have due: "\<exists>s'. check_persisted_suspend_state en s = Some s'
              \<and> trace s' =
                  trace s @ resume_events en (int_pids en vs) @ [Remove_state (remove_ok en)]
                  @ (if 0 < length (filter (can_resume en) (int_pids en vs))
                     then [Dialog (Info_resumed_elapsed
                             (length (filter (can_resume en) (int_pids en vs))))]
                     else [])
              \<and> active_suspended s' = None
              \<and> disk s' = (if remove_ok en then Missing else disk s)"
    if "py_float en v = Some (Fin rt)" and "rt - now_check en < 1"
    using check_overdue [OF assms that] resumed_now_trace [of en vs Info_resumed_elapsed s]
      resumed_now_state [of en vs Info_resumed_elapsed s] r
    by simp
  have pending: "\<exists>s'. check_persisted_suspend_state en s = Some s'
              \<and> trace s' =
                  trace s @ [Dialog (Ask_resume (length vs))]
                  @ (if askyesno_resume en = Some True
                     then resume_events en (int_pids en vs) @ [Remove_state (remove_ok en)]
                          @ (if 0 < length (filter (can_resume en) (int_pids en vs))
                             then [Dialog (Info_resumed
                                     (length (filter (can_resume en) (int_pids en vs))))]
                             else [])
                     else if rt - now_delayed en > 0 \<and> \<not> sleep_ok en (rt - now_delayed en)
                     then [Sleep_failed (Fin (rt - now_delayed en))]
                     else (if rt - now_delayed en > 0 then [Sleep (rt - now_delayed en)] else [])
                          @ resume_events en (int_pids en vs) @ [Remove_state (remove_ok en)]
                          @ (if 0 < length (filter (can_resume en) (int_pids en vs))
                             then [Dialog (Info_resumed_persisted
                                     (length (filter (can_resume en) (int_pids en vs))))]
                             else []))"
    if f: "py_float en v = Some (Fin rt)" and p: "1 \<le> rt - now_check en"
  proof (cases "askyesno_resume en = Some True")
    case True
    then show ?thesis
      unfolding check_pending [OF assms f p]
      by (simp add: resumed_now_trace trace_emit disk_emit r)
  next
    case False
    then have "check_persisted_suspend_state en s =
           Some (delayed_resume_from_persisted en vs (Fin rt)
                   (emit (Dialog (Ask_resume (length vs))) s))"
      unfolding check_pending [OF assms f p]
      by (auto split: option.splits bool.splits)
    then show ?thesis
      using False by (simp add: delayed_trace trace_emit disk_emit r)
  qed
  have raises: "check_persisted_suspend_state en s = None"
    if "\<forall>r. py_float en v \<noteq> Some (Fin r)"
    by (rule check_raises [OF assms that])
  show ?thesis using due pending raises int_pids_written by blast
qed

theorem recovery_by_whole_seconds_witness:
  "disk (demo_recovering 995) = Content (JDict (demo_items 995))
   \<and> map_of (demo_items 995) ''pids'' = Some (JList [JInt 100, JInt 200])
   \<and> map_of (demo_items 995) ''resume_time'' = Some (JFloat (Fin 995))
   \<and> py_float demo_env (JFloat (Fin 995)) = Some (Fin 995)
   \<and> 995 - now_check demo_env < 1
   \<and> map_option trace (check_persisted_suspend_state demo_env (demo_recovering 995))
       = Some [Os_resume 100 True, Os_resume 200 True, Remove_state True,
               Dialog (Info_resumed_elapsed 2)]
   \<and> map_option disk (check_persisted_suspend_state demo_env (demo_recovering 995)) = Some Missing
   \<and> disk (demo_recovering 1001) = Content (JDict (demo_items 1001))
   \<and> map_of (demo_items 1001) ''pids'' = Some (JList [JInt 100, JInt 200])
   \<and> map_of (demo_items 1001) ''resume_time'' = Some (JFloat (Fin 1001))
   \<and> py_float demo_env (JFloat (Fin 1001)) = Some (Fin 1001)
   \<and> 1 \<le> 1001 - now_check demo_env
   \<and> askyesno_resume demo_env = Some False
   \<and> map_option trace (check_persisted_suspend_state demo_env (demo_recovering 1001))
       = Some [Dialog (Ask_resume 2), Sleep 1, Os_resume 100 True, Os_resume 200 True,
               Remove_state True, Dialog (Info_resumed_persisted 2)]
   \<and> map_option trace
         (check_persisted_suspend_state (demo_env\<lparr>askyesno_resume := Some True\<rparr>)
            (demo_recovering 1001))
       = Some [Dialog (Ask_resume 2), Os_resume 100 True, Os_resume 200 True,
               Remove_state True, Dialog (Info_resumed 2)]
   \<and> disk demo_unconvertible = Content (JDict demo_unconvertible_items)
   \<and> map_of demo_unconvertible_items ''pids'' = Some (JList [JInt 100, JInt 200])
   \<and> map_of demo_unconvertible_items ''resume_time'' = Some (JInt demo_huge)
   \<and> py_float demo_env (JInt demo_huge) = None
   \<and> check_persisted_suspend_state demo_env demo_unconvertible = None"
proof -
  have f: "py_float en (JFloat (Fin x)) = Some (Fin x)" for en x by simp
  have a: "995 - now_check demo_env < 1" and b: "1 \<le> 1001 - now_check demo_env"
    and b': "1 \<le> 1001 - now_check (demo_env\<lparr>askyesno_resume := Some True\<rparr>)"
    by (simp_all add: demo_env_def)
  have t: "trace (demo_recovering rt) = []" for rt
    by (simp add: demo_recovering_def init_sys_def)
  have i: "int_pids en [JInt 100, JInt 200] = [100, 200]" for en
    using int_pids_written [of en "[100, 200]"] by simp
  have c: "can_resume demo_env = (\<lambda>p. True)" "remove_ok demo_env"
      "askyesno_resume demo_env = Some False" "now_delayed demo_env = 1000"
      "sleep_ok demo_env = (\<lambda>w. True)"
    by (simp_all add: demo_env_def)
  have "\<exists>s1. check_persisted_suspend_state demo_env (demo_recovering 995) = Some s1
            \<and> trace s1 = [Os_resume 100 True, Os_resume 200 True, Remove_state True,
                            Dialog (Info_resumed_elapsed 2)]
            \<and> disk s1 = Missing"
    using recovery_by_whole_seconds
            [OF demo_recovering_disk demo_items_pids demo_items_resume_time,
             where en = demo_env and rt = 995 and ps = "[]"] a
    by (auto simp: t i c resume_events_def numeral_2_eq_2)
  then obtain s1 where s1: "check_persisted_suspend_state demo_env (demo_recovering 995) = Some s1"
      "trace s1 = [Os_resume 100 True, Os_resume 200 True, Remove_state True,
                   Dialog (Info_resumed_elapsed 2)]"
      "disk s1 = Missing"
    by blast
  have "\<exists>s2. check_persisted_suspend_state demo_env (demo_recovering 1001) = Some s2
            \<and> trace s2 = [Dialog (Ask_resume 2), Sleep 1, Os_resume 100 True, Os_resume 200 True,
                            Remove_state True, Dialog (Info_resumed_persisted 2)]"
    using recovery_by_whole_seconds
            [OF demo_recovering_disk demo_items_pids demo_items_resume_time,
             where en = demo_env and rt = 1001 and ps = "[]"] b
    by (auto simp: t i c resume_events_def numeral_2_eq_2)
  then obtain s2 where s2: "check_persisted_suspend_state demo_env (demo_recovering 1001) = Some s2"
      "trace s2 = [Dialog (Ask_resume 2), Sleep 1, Os_resume 100 True, Os_resume 200 True,
                   Remove_state True, Dialog (Info_resumed_persisted 2)]"
    by blast
  have "\<exists>s3. check_persisted_suspend_state (demo_env\<lparr>askyesno_resume := Some True\<rparr>)
               (demo_recovering 1001) = Some s3
            \<and> trace s3 = [Dialog (Ask_resume 2), Os_resume 100 True, Os_resume 200 True,
                            Remove_state True, Dialog (Info_resumed 2)]"
    using recovery_by_whole_seconds
            [OF demo_recovering_disk demo_items_pids demo_items_resume_time,
             where en = "demo_env\<lparr>askyesno_resume := Some True\<rparr>" and rt = 1001
               and ps = "[]"] b'
    by (auto simp: t i c resume_events_def numeral_2_eq_2)
  then obtain s3 where s3:
      "check_persisted_suspend_state (demo_env\<lparr>askyesno_resume := Some True\<rparr>)
         (demo_recovering 1001) = Some s3"
      "trace s3 = [Dialog (Ask_resume 2), Os_resume 100 True, Os_resume 200 True,
                   Remove_state True, Dialog (Info_resumed 2)]"
    by blast
  have u1: "disk demo_unconvertible = Content (JDict demo_unconvertible_items)"
    and u2: "map_of demo_unconvertible_items ''pids'' = Some (JList [JInt 100, JInt 200])"
    and u3: "map_of demo_unconvertible_items ''resume_time'' = Some (JInt demo_huge)"
    by (simp_all add: demo_unconvertible_def demo_unconvertible_items_def)
  have u4: "py_float demo_env (JInt demo_huge) = None"
    by (simp add: float_of_int_def demo_huge_beyond)
  have u5: "check_persisted_suspend_state demo_env demo_unconvertible = None"
    using recovery_by_whole_seconds [OF u1 u2 u3, where en = demo_env and rt = 0 and ps = "[]"] u4 by simp
  show ?thesis
    using a b s1 s2 s3 u1 u2 u3 u4 u5 c(3)
    by (simp add: demo_recovering_disk demo_items_pids demo_items_resume_time)
qed

text \<open>
  Claim C2 says that a deadline still in the future leads to the prompt. With the
  deadline half a second ahead of the clock, the two recorded pids are resumed and the
  file removed, and the only message is the report of the resumed processes.
\<close>

theorem subsecond_deadline_counterexample:
  "now_check demo_env < 1000 + 1 / 2
   \<and> disk (demo_recovering (1000 + 1 / 2)) = Content (suspension_record [100, 200] (1000 + 1 / 2) 990)
   \<and> map_option trace (check_persisted_suspend_state demo_env (demo_recovering (1000 + 1 / 2)))
       = Some [Os_resume 100 True, Os_resume 200 True, Remove_state True,
               Dialog (Info_resumed_elapsed 2)]"
  by (simp add: check_persisted_suspend_state_def load_suspend_state_def resume_pids_def
        clear_suspend_state_def emit_def demo_env_def demo_recovering_def demo_items_def
        init_sys_def suspension_record_def py_trunc_def Let_def)




text \<open>
  Claim C4. With the limit \<open>limit_mb\<close> in the entry, the row of a group carries the
  tag \<^verbatim>\<open>high_memory\<close>, and its name enters \<^verbatim>\<open>current_high_names\<close>, exactly when
  \<open>limit_mb > 0\<close> and the group's memory sum exceeds \<open>limit_mb\<close>; with a limit of 0
  or below, no row is tagged and no name is high, whatever the memory sums.
\<close>

theorem high_flag_iff:
  "map row_tag (tree (display_processes (Some limit_mb) alerted processes)) =
     map (\<lambda>p. if spec_high limit_mb (memory p) then ''high_memory'' else '''') processes
   \<and> current_high_names (display_processes (Some limit_mb) alerted processes) =
     display_name ` {p \<in> set processes. spec_high limit_mb (memory p)}
   \<and> (limit_mb \<le> 0 \<longrightarrow>
        (\<forall>r \<in> set (tree (display_processes (Some limit_mb) alerted processes)). row_tag r = '''')
        \<and> current_high_names (display_processes (Some limit_mb) alerted processes) = {})"
proof -
  let ?r = "display_processes (Some limit_mb) alerted processes"
  have tags: "map row_tag (tree ?r) =
     map (\<lambda>p. if spec_high limit_mb (memory p) then ''high_memory'' else '''') processes"
    by (simp add: display_processes_def Let_def display_loop_tags memory_limit_high)
  have high: "current_high_names ?r = display_name ` {p \<in> set processes. spec_high limit_mb (memory p)}"
    by (simp add: display_processes_def Let_def display_loop_high high_names_def memory_limit_high)
  have off: "limit_mb \<le> 0 \<Longrightarrow> \<forall>r \<in> set (tree ?r). row_tag r = ''''"
  proof
    fix r assume l: "limit_mb \<le> 0" and r: "r \<in> set (tree ?r)"
    then have "row_tag r \<in> set (map row_tag (tree ?r))" by simp
    then show "row_tag r = ''''" unfolding tags using l by (auto simp: spec_high_def)
  qed
  have off2: "limit_mb \<le> 0 \<Longrightarrow> current_high_names ?r = {}"
    unfolding high by (auto simp: spec_high_def)
  show ?thesis using tags high off off2 by blast
qed

theorem high_flag_iff_witness:
  "(0::real) \<le> 0
   \<and> map row_tag (tree (display_processes (Some 0) {}
          [\<lparr>key = ''a.exe'', display_name = ''a.exe'', pids = [7], cpu = 1, memory = 900,
            power_mw = 150, network = 0, per_pid = Map.empty\<rparr>])) = ['''']
   \<and> current_high_names (display_processes (Some 0) {}
          [\<lparr>key = ''a.exe'', display_name = ''a.exe'', pids = [7], cpu = 1, memory = 900,
            power_mw = 150, network = 0, per_pid = Map.empty\<rparr>]) = {}"
  using high_flag_iff [of 0 "{}"
          "[\<lparr>key = ''a.exe'', display_name = ''a.exe'', pids = [7], cpu = 1, memory = 900,
            power_mw = 150, network = 0, per_pid = Map.empty\<rparr>]"]
  by (simp add: spec_high_def)

text \<open>
  Claim C5. In one call of \<^verbatim>\<open>display_processes\<close> the names for which a toast is
  requested are the names of the high groups that were not in \<^verbatim>\<open>alerted_names\<close>
  before the call, each once; after the call \<^verbatim>\<open>alerted_names\<close> is exactly the set
  of the names that are high in this call; hence in the next call no toast is requested
  for a name that was high in this one.
\<close>

theorem alert_dedup:
  "fst ` set (toasts (display_processes e1 alerted ps1))
      = high_names (memory_limit_of e1) ps1 - alerted
   \<and> distinct (map fst (toasts (display_processes e1 alerted ps1)))
   \<and> alerted_names (display_processes e1 alerted ps1) = high_names (memory_limit_of e1) ps1
   \<and> current_high_names (display_processes e1 alerted ps1) = high_names (memory_limit_of e1) ps1
   \<and> fst ` set (toasts (display_processes e2
                           (alerted_names (display_processes e1 alerted ps1)) ps2))
      = high_names (memory_limit_of e2) ps2 - high_names (memory_limit_of e1) ps1
   \<and> high_names (memory_limit_of e1) ps1
        \<inter> fst ` set (toasts (display_processes e2
                                (alerted_names (display_processes e1 alerted ps1)) ps2)) = {}"
proof -
  have names: "fst ` set (toasts (display_processes e a ps)) = high_names (memory_limit_of e) ps - a"
    for e a ps
    by (simp add: display_processes_def Let_def display_loop_toast_names)
  have al: "alerted_names (display_processes e a ps) = high_names (memory_limit_of e) ps"
    for e a ps
    by (auto simp: display_processes_def Let_def display_loop_alerted display_loop_high)
  have hi: "current_high_names (display_processes e a ps) = high_names (memory_limit_of e) ps"
    for e a ps
    by (simp add: display_processes_def Let_def display_loop_high)
  have di: "distinct (map fst (toasts (display_processes e1 alerted ps1)))"
    by (simp add: display_processes_def Let_def display_loop_toast_distinct)
  show ?thesis
    unfolding names al hi using di by auto
qed

text \<open>
  Claim C6. When the enumeration lists every pid once, every group of the output of
  \<^verbatim>\<open>update_processes_list\<close> has at least one pid, and each of its sums (memory, cpu,
  power, network) is the sum, over its pids, of the value kept for the pid in
  \<^verbatim>\<open>per_pid\<close>, where every one of its pids has an entry.
\<close>

theorem aggregation_sums:
  assumes "distinct (map pid samples)"
      and "g \<in> set (fst (update_processes_list lib now last_net_io samples))"
  shows "pids g \<noteq> []
     \<and> memory g = sum_list (map (\<lambda>i. pid_memory (detail_of g i)) (pids g))
     \<and> cpu g = sum_list (map (\<lambda>i. pid_cpu (detail_of g i)) (pids g))
     \<and> power_mw g = sum_list (map (\<lambda>i. pid_power (detail_of g i)) (pids g))
     \<and> network g = sum_list (map (\<lambda>i. pid_network (detail_of g i)) (pids g))
     \<and> set (pids g) \<subseteq> dom (per_pid g)"
proof -
  let ?procs = "fst (foldl (process_sample lib now) ([], last_net_io) samples)"
  obtain k where kg: "(k, g) \<in> set ?procs"
    using assms(2) unfolding update_processes_list_set by auto
  have ki: "key_inv lib ?procs samples" by (rule key_inv_loop)
  then have m: "map_of ?procs k = Some g"
    using kg by (simp add: key_inv_def)
  have "sums_ok g"
    using sum_inv_loop [OF assms(1), of lib now last_net_io] m by (simp add: sum_inv_def)
  moreover have "pids g \<noteq> []"
    using ki m unfolding key_inv_def by (auto dest!: spec [where x = k])
  ultimately show ?thesis by (simp add: sums_ok_def)
qed

theorem aggregation_sums_witness:
  "distinct (map pid demo_samples)
   \<and> demo_groups ! 1 \<in> set (fst (update_processes_list demo_lib 50 Map.empty demo_samples))
   \<and> pids (demo_groups ! 1) = [1, 2]
   \<and> memory (demo_groups ! 1) = 3
   \<and> memory (demo_groups ! 1)
       = sum_list (map (\<lambda>i. pid_memory (detail_of (demo_groups ! 1) i)) (pids (demo_groups ! 1)))"
proof -
  have len: "length demo_groups = 2"
    using arg_cong [OF demo_groups_pids, of length] by simp
  have g: "demo_groups ! 1 \<in> set (fst (update_processes_list demo_lib 50 Map.empty demo_samples))"
    using len by (simp add: demo_groups_def [symmetric])
  have p: "pids (demo_groups ! 1) = [1, 2]"
    using arg_cong [OF demo_groups_pids, of "\<lambda>xs. xs ! 1"] len by simp
  have m: "memory (demo_groups ! 1) = 3"
    using arg_cong [OF demo_groups_memory, of "\<lambda>xs. xs ! 1"] len by simp
  show ?thesis
    using aggregation_sums [OF demo_samples_distinct g] demo_samples_distinct g p m by simp
qed

text \<open>
  Claim C7. Let two samples of one enumeration, with different pids, both be kept. They
  are merged into one group exactly when both names, stripped and lower-cased, end in
  \<^verbatim>\<open>.exe\<close> and are equal. A sample whose lower-cased name ends in \<^verbatim>\<open>.exe\<close>
  is in the group whose key is that name; any other sample is alone in a group whose key
  is its lower-cased name, an underscore and its pid. This holds whatever
  \<^verbatim>\<open>str.lower\<close> and \<^verbatim>\<open>str.strip\<close> do to a name.
\<close>

theorem grouping_rule:
  assumes d: "distinct (map pid samples)"
      and s: "s \<in> set samples" "cpu_percent s \<noteq> None"
      and t: "t \<in> set samples" "cpu_percent t \<noteq> None"
      and ne: "pid s \<noteq> pid t"
  shows "(merged (fst (update_processes_list lib now last_net_io samples)) s t \<longleftrightarrow>
            endswith (str_lower lib (raw_name lib s)) ''.exe''
            \<and> endswith (str_lower lib (raw_name lib t)) ''.exe''
            \<and> str_lower lib (raw_name lib s) = str_lower lib (raw_name lib t))
     \<and> (endswith (str_lower lib (raw_name lib s)) ''.exe'' \<longrightarrow>
          (\<exists>g \<in> set (fst (update_processes_list lib now last_net_io samples)).
             key g = str_lower lib (raw_name lib s) \<and> pid s \<in> set (pids g)))
     \<and> (\<not> endswith (str_lower lib (raw_name lib s)) ''.exe'' \<longrightarrow>
          (\<exists>g \<in> set (fst (update_processes_list lib now last_net_io samples)).
             key g = str_lower lib (raw_name lib s) @ ''_'' @ str_nat (pid s)
             \<and> pids g = [pid s]))"
proof -
  let ?out = "fst (update_processes_list lib now last_net_io samples)"
  have as: "accepted s" and at: "accepted t" using s t by (simp_all add: accepted_def)
  have one: "merged ?out s t \<longleftrightarrow>
            endswith (name_lower lib s) ''.exe'' \<and> endswith (name_lower lib t) ''.exe''
            \<and> name_lower lib s = name_lower lib t"
    using merged_iff_key [OF d s(1) as t(1) at] group_key_eq_iff [OF ne] by simp
  obtain g where g: "g \<in> set ?out" "key g = group_key lib s"
      and p: "pids g = map pid (members lib (group_key lib s) samples)"
    using out_group_exists [OF s(1) as] by blast
  have two: "endswith (name_lower lib s) ''.exe'' \<Longrightarrow>
          \<exists>g \<in> set ?out. key g = name_lower lib s \<and> pid s \<in> set (pids g)"
  proof -
    assume e: "endswith (name_lower lib s) ''.exe''"
    have "pid s \<in> set (pids g)" unfolding p using s(1) as by (auto simp: members_def)
    moreover have "key g = name_lower lib s" using g e by (simp add: group_key_def)
    ultimately show ?thesis using g(1) by blast
  qed
  have three: "\<not> endswith (name_lower lib s) ''.exe'' \<Longrightarrow>
          \<exists>g \<in> set ?out. key g = name_lower lib s @ ''_'' @ str_nat (pid s) \<and> pids g = [pid s]"
  proof -
    assume e: "\<not> endswith (name_lower lib s) ''.exe''"
    have ds: "distinct samples" using d by (simp add: distinct_map)
    have inj: "inj_on pid (set samples)" using d by (simp add: distinct_map)
    have only: "(accepted x \<and> group_key lib x = group_key lib s) = (x = s)" if x: "x \<in> set samples" for x
    proof (cases "pid x = pid s")
      case True
      then have "x = s" using inj x s(1) by (auto dest: inj_onD)
      then show ?thesis using as by simp
    next
      case False
      then have "group_key lib x \<noteq> group_key lib s"
        using group_key_eq_iff [OF False] e by simp
      then show ?thesis using False by auto
    qed
    have "members lib (group_key lib s) samples = [s]"
      unfolding members_def by (rule filter_only [OF ds s(1) only])
    then have "pids g = [pid s]" using p by simp
    moreover have "key g = name_lower lib s @ ''_'' @ str_nat (pid s)"
      using g e by (simp add: group_key_def)
    ultimately show ?thesis using g(1) by blast
  qed
  show ?thesis
    using one two three unfolding name_lower_def by blast
qed

theorem grouping_rule_witness:
  "distinct (map pid demo_samples)
   \<and> demo_samples ! 0 \<in> set demo_samples \<and> cpu_percent (demo_samples ! 0) \<noteq> None
   \<and> demo_samples ! 1 \<in> set demo_samples \<and> cpu_percent (demo_samples ! 1) \<noteq> None
   \<and> demo_samples ! 2 \<in> set demo_samples \<and> cpu_percent (demo_samples ! 2) \<noteq> None
   \<and> pid (demo_samples ! 0) \<noteq> pid (demo_samples ! 1)
   \<and> pid (demo_samples ! 2) \<noteq> pid (demo_samples ! 0)
   \<and> endswith (str_lower demo_lib (raw_name demo_lib (demo_samples ! 0))) ''.exe''
   \<and> str_lower demo_lib (raw_name demo_lib (demo_samples ! 0))
       = str_lower demo_lib (raw_name demo_lib (demo_samples ! 1))
   \<and> \<not> endswith (str_lower demo_lib (raw_name demo_lib (demo_samples ! 2))) ''.exe''
   \<and> merged demo_groups (demo_samples ! 0) (demo_samples ! 1)
   \<and> \<not> merged demo_groups (demo_samples ! 2) (demo_samples ! 0)"
proof -
  have m0: "demo_samples ! 0 \<in> set demo_samples" and c0: "cpu_percent (demo_samples ! 0) \<noteq> None"
    and m1: "demo_samples ! 1 \<in> set demo_samples" and c1: "cpu_percent (demo_samples ! 1) \<noteq> None"
    and m2: "demo_samples ! 2 \<in> set demo_samples" and c2: "cpu_percent (demo_samples ! 2) \<noteq> None"
    and n01: "pid (demo_samples ! 0) \<noteq> pid (demo_samples ! 1)"
    and n20: "pid (demo_samples ! 2) \<noteq> pid (demo_samples ! 0)"
    by (simp_all add: demo_samples_def)
  have e0: "endswith (str_lower demo_lib (raw_name demo_lib (demo_samples ! 0))) ''.exe''"
    and e1: "endswith (str_lower demo_lib (raw_name demo_lib (demo_samples ! 1))) ''.exe''"
    and eq: "str_lower demo_lib (raw_name demo_lib (demo_samples ! 0))
               = str_lower demo_lib (raw_name demo_lib (demo_samples ! 1))"
    and e2: "\<not> endswith (str_lower demo_lib (raw_name demo_lib (demo_samples ! 2))) ''.exe''"
    by (simp_all add: demo_samples_def raw_name_def str_eval)
  show ?thesis
    using grouping_rule [OF demo_samples_distinct m0 c0 m1 c1 n01,
            where lib = demo_lib and now = 50 and last_net_io = Map.empty]
          grouping_rule [OF demo_samples_distinct m2 c2 m0 c0 n20,
            where lib = demo_lib and now = 50 and last_net_io = Map.empty]
          demo_samples_distinct m0 c0 m1 c1 m2 c2 n01 n20 e0 e1 eq e2
    by (simp add: demo_groups_def)
qed

text \<open>
  Claim C8. The throughput of a pid is
  \<open>max(0, (current_io_bytes - previous_io_bytes) / elapsed_seconds / 1024)\<close>, the
  elapsed time being at least one millisecond; the first sample of a pid, which has no
  baseline, gives exactly 0. Every sample that can be read becomes the baseline of the
  next one: the byte total and the time are stored for the pid; a sample that cannot be
  read gives 0 and leaves the baseline. A second sample 100000 bytes later and one
  second later gives 97.65625, that is 97.66 to two decimals, and a third one, 2048
  bytes and two seconds after the second, gives 1.
\<close>

theorem network_kbps_formula:
  "fst (get_network_kbps_for_pid (m(p := None)) p (Some (r, w)) now) = 0
   \<and> fst (get_network_kbps_for_pid (m(p \<mapsto> (last_bytes, last_time))) p (Some (r, w)) now)
       = spec_network_kbps (r + w) last_bytes (now - last_time)
   \<and> snd (get_network_kbps_for_pid m p (Some (r, w)) now) = m(p \<mapsto> (r + w, now))
   \<and> get_network_kbps_for_pid m p None now = (0, m)
   \<and> (let (k1, m1) = get_network_kbps_for_pid Map.empty 7 (Some (3000, 2000)) 50;
          (k2, m2) = get_network_kbps_for_pid m1 7 (Some (83000, 22000)) 51;
          (k3, m3) = get_network_kbps_for_pid m2 7 (Some (83000, 22000 + 2048)) 53
      in k1 = 0 \<and> k2 = 97.65625 \<and> \<bar>k2 - 97.66\<bar> < 0.005 \<and> k3 = 1
         \<and> m1 7 = Some (5000, 50) \<and> m2 7 = Some (105000, 51) \<and> m3 7 = Some (107048, 53))"
  by (simp add: get_network_kbps_for_pid_def spec_network_kbps_def Let_def max_def
        split: option.splits)

text \<open>
  Claim C9, as the code has it. A failing write of the record is swallowed by
  \<^verbatim>\<open>save_suspend_state\<close>: the in-memory copy \<^verbatim>\<open>active_suspended\<close> is left as
  it was, and the file is left as it was or unreadable. Whatever the outcome of the
  write, \<^verbatim>\<open>_suspend_resume_processes\<close> makes the same suspend and resume calls,
  sleeps the same time and shows the same messages: nothing tells the caller that the
  record was not stored.
\<close>

theorem write_failure_swallowed:
  "outside_storage (trace (suspend_resume_processes (en\<lparr>write_result := w\<rparr>) pid_list seconds s))
     = outside_storage (trace (suspend_resume_processes en pid_list seconds s))
   \<and> dialogs (trace (suspend_resume_processes (en\<lparr>write_result := w\<rparr>) pid_list seconds s))
     = dialogs (trace (suspend_resume_processes en pid_list seconds s))
   \<and> active_suspended (save_suspend_state (en\<lparr>write_result := Open_failed\<rparr>) pid_list rt s)
     = active_suspended s
   \<and> active_suspended (save_suspend_state (en\<lparr>write_result := Dump_failed\<rparr>) pid_list rt s)
     = active_suspended s
   \<and> disk (save_suspend_state (en\<lparr>write_result := Open_failed\<rparr>) pid_list rt s) = disk s
   \<and> disk (save_suspend_state (en\<lparr>write_result := Dump_failed\<rparr>) pid_list rt s) = Unreadable"
proof -
  have ev: "suspend_events (en\<lparr>write_result := w\<rparr>) ps = suspend_events en ps"
      "resume_events (en\<lparr>write_result := w\<rparr>) ps = resume_events en ps" for ps
    by (simp_all add: suspend_events_def resume_events_def)
  have o: "outside_storage (trace (suspend_resume_processes (en\<lparr>write_result := w\<rparr>) pid_list seconds s))
     = outside_storage (trace (suspend_resume_processes en pid_list seconds s))"
    unfolding suspend_resume_trace
    by (simp add: outside_storage_def ev not_storage_remove_events)
  have d: "dialogs (trace (suspend_resume_processes (en\<lparr>write_result := w\<rparr>) pid_list seconds s))
     = dialogs (trace (suspend_resume_processes en pid_list seconds s))"
    unfolding suspend_resume_trace
    by (simp add: dialogs_append dialogs_remove_events ev)
  have a: "active_suspended (save_suspend_state (en\<lparr>write_result := Open_failed\<rparr>) pid_list rt s)
             = active_suspended s"
      "active_suspended (save_suspend_state (en\<lparr>write_result := Dump_failed\<rparr>) pid_list rt s)
             = active_suspended s"
      "disk (save_suspend_state (en\<lparr>write_result := Open_failed\<rparr>) pid_list rt s) = disk s"
      "disk (save_suspend_state (en\<lparr>write_result := Dump_failed\<rparr>) pid_list rt s) = Unreadable"
    by (simp_all add: save_suspend_state_def emit_def Let_def)
  show ?thesis using o d a by blast
qed

text \<open>
  Claim C9 says that a failing write is reported. When \<^verbatim>\<open>open\<close> fails, process
  4242 is suspended and resumed all the same, the messages are those of a run whose
  write succeeds, no record is on disk and none is kept in memory.
\<close>

theorem write_failure_counterexample:
  "trace (suspend_resume_processes (demo_env\<lparr>write_result := Open_failed\<rparr>) [4242] 60 init_sys) =
     [Save_state (suspension_record [4242] 1060 1000) Open_failed,
      Os_suspend 4242 True,
      Dialog (Info_stopped 1),
      Sleep 60,
      Os_resume 4242 True,
      Dialog (Info_resumed_auto 1)]
   \<and> dialogs (trace (suspend_resume_processes (demo_env\<lparr>write_result := Open_failed\<rparr>)
                       [4242] 60 init_sys))
       = dialogs (trace (suspend_resume_processes demo_env [4242] 60 init_sys))
   \<and> disk (save_suspend_state (demo_env\<lparr>write_result := Open_failed\<rparr>) [4242] 1060 init_sys)
       = Missing
   \<and> active_suspended
         (save_suspend_state (demo_env\<lparr>write_result := Open_failed\<rparr>) [4242] 1060 init_sys)
       = None"
  by (simp add: suspend_resume_processes_def save_suspend_state_def clear_suspend_state_def
        emit_def demo_env_def init_sys_def Let_def)

text \<open>
  Claim C10. Let the state file hold a dictionary whose \<^verbatim>\<open>pids\<close> is a list and
  whose \<^verbatim>\<open>resume_time\<close> is a number lying in the future by less than one second.
  Then \<^verbatim>\<open>int(resume_time - now)\<close> is 0 and the record is treated as overdue: the
  recorded pids are resumed at once, the record is cleared, and no prompt is shown.
\<close>

theorem recovery_subsecond_overdue:
  assumes "disk s = Content (JDict kv)" and "map_of kv ''pids'' = Some (JList vs)"
      and "map_of kv ''resume_time'' = Some v" and "py_float en v = Some (Fin rt)"
      and "0 < rt - now_check en" and "rt - now_check en < 1"
  shows "py_trunc (rt - now_check en) = 0
     \<and> (\<exists>s'. check_persisted_suspend_state en s = Some s'
           \<and> trace s' =
               trace s @ resume_events en (int_pids en vs) @ [Remove_state (remove_ok en)]
               @ (if 0 < length (filter (can_resume en) (int_pids en vs))
                  then [Dialog (Info_resumed_elapsed
                          (length (filter (can_resume en) (int_pids en vs))))]
                  else [])
           \<and> filter is_prompt (drop (length (trace s)) (trace s')) = []
           \<and> active_suspended s' = None
           \<and> disk s' = (if remove_ok en then Missing else disk s))"
proof -
  have z: "py_trunc (rt - now_check en) = 0"
    using assms(5,6) by (simp add: py_trunc_def) linarith
  have r: "remove_events en (disk s) = [Remove_state (remove_ok en)]"
    using assms(1) by (simp add: remove_events_def)
  have np: "filter is_prompt (resume_events en ps) = []" for ps
    by (induction ps) (simp_all add: resume_events_def)
  define s' where "s' = resumed_now en vs Info_resumed_elapsed s"
  have c: "check_persisted_suspend_state en s = Some s'"
    unfolding s'_def by (rule check_overdue [OF assms(1-4,6)])
  have t: "trace s' =
               trace s @ resume_events en (int_pids en vs) @ [Remove_state (remove_ok en)]
               @ (if 0 < length (filter (can_resume en) (int_pids en vs))
                  then [Dialog (Info_resumed_elapsed
                          (length (filter (can_resume en) (int_pids en vs))))]
                  else [])"
    by (simp add: s'_def resumed_now_trace r)
  have p: "filter is_prompt (drop (length (trace s)) (trace s')) = []"
    unfolding t by (simp add: np)
  have st: "active_suspended s' = None \<and> disk s' = (if remove_ok en then Missing else disk s)"
    unfolding s'_def by (rule resumed_now_state)
  show ?thesis using z c t p st by blast
qed

theorem recovery_subsecond_overdue_witness:
  "disk (demo_recovering (1000 + 1 / 4)) = Content (JDict (demo_items (1000 + 1 / 4)))
   \<and> map_of (demo_items (1000 + 1 / 4)) ''pids'' = Some (JList [JInt 100, JInt 200])
   \<and> map_of (demo_items (1000 + 1 / 4)) ''resume_time'' = Some (JFloat (Fin (1000 + 1 / 4)))
   \<and> py_float demo_env (JFloat (Fin (1000 + 1 / 4))) = Some (Fin (1000 + 1 / 4))
   \<and> 0 < 1000 + 1 / 4 - now_check demo_env
   \<and> 1000 + 1 / 4 - now_check demo_env < 1
   \<and> py_trunc (1000 + 1 / 4 - now_check demo_env) = 0
   \<and> map_option trace (check_persisted_suspend_state demo_env (demo_recovering (1000 + 1 / 4)))
       = Some [Os_resume 100 True, Os_resume 200 True, Remove_state True,
               Dialog (Info_resumed_elapsed 2)]
   \<and> map_option disk (check_persisted_suspend_state demo_env (demo_recovering (1000 + 1 / 4)))
       = Some Missing"
proof -
  have f: "py_float demo_env (JFloat (Fin (1000 + 1 / 4))) = Some (Fin (1000 + 1 / 4))" by simp
  have a: "0 < 1000 + 1 / 4 - now_check demo_env" and b: "1000 + 1 / 4 - now_check demo_env < 1"
    by (simp_all add: demo_env_def)
  have t: "trace (demo_recovering rt) = []" for rt
    by (simp add: demo_recovering_def init_sys_def)
  have i: "int_pids demo_env [JInt 100, JInt 200] = [100, 200]"
    using int_pids_written [of demo_env "[100, 200]"] by simp
  have c: "can_resume demo_env = (\<lambda>p. True)" "remove_ok demo_env" by (simp_all add: demo_env_def)
  have "\<exists>s1. check_persisted_suspend_state demo_env (demo_recovering (1000 + 1 / 4)) = Some s1
            \<and> trace s1 = [Os_resume 100 True, Os_resume 200 True, Remove_state True,
                            Dialog (Info_resumed_elapsed 2)]
            \<and> disk s1 = Missing"
    using recovery_subsecond_overdue
            [OF demo_recovering_disk demo_items_pids demo_items_resume_time f a b]
    by (auto simp: t i c resume_events_def numeral_2_eq_2)
  then obtain s1 where s1:
      "check_persisted_suspend_state demo_env (demo_recovering (1000 + 1 / 4)) = Some s1"
      "trace s1 = [Os_resume 100 True, Os_resume 200 True, Remove_state True,
                   Dialog (Info_resumed_elapsed 2)]"
      "disk s1 = Missing"
    by blast
  have z: "py_trunc (1000 + 1 / 4 - now_check demo_env) = 0"
    using recovery_subsecond_overdue
            [OF demo_recovering_disk demo_items_pids demo_items_resume_time f a b]
    by simp
  show ?thesis
    using a b s1 z
    by (simp add: demo_recovering_disk demo_items_pids demo_items_resume_time)
qed

end
